theory Spec2Isabelle
  imports Complex_Main
begin

section \<open>Tokens and the lexer (expression\_eval.py)\<close>

text \<open>\<open>TERM\<close> is reserved syntax of the logic, so the member is written \<open>TERM_T\<close>.\<close>

datatype TokenType = TERM_T | OR | AND | NOT | LPAREN | RPAREN | EOF

text \<open>The string carried by each enum member (\<open>TokenType.X.value\<close>).\<close>

fun TokenType_value :: "TokenType \<Rightarrow> string" where
  "TokenType_value TERM_T = ''TERM''"
| "TokenType_value OR = ''OR''"
| "TokenType_value AND = ''AND''"
| "TokenType_value NOT = ''NOT''"
| "TokenType_value LPAREN = ''(''"
| "TokenType_value RPAREN = '')''"
| "TokenType_value EOF = ''##EOF##''"

text \<open>What \<open>str.format\<close> prints for an enum member: \<open>TokenType.NAME\<close>.\<close>

fun TokenType_str :: "TokenType \<Rightarrow> string" where
  "TokenType_str TERM_T = ''TokenType.TERM''"
| "TokenType_str OR = ''TokenType.OR''"
| "TokenType_str AND = ''TokenType.AND''"
| "TokenType_str NOT = ''TokenType.NOT''"
| "TokenType_str LPAREN = ''TokenType.LPAREN''"
| "TokenType_str RPAREN = ''TokenType.RPAREN''"
| "TokenType_str EOF = ''TokenType.EOF''"

datatype Token = Token (tok_value: string) (tok_type: TokenType)

text \<open>One token of the lexer's loop: the \<open>if/elif\<close> chain in the source's order.\<close>

definition lex_one :: "string \<Rightarrow> Token" where
  "lex_one t =
     (if t = TokenType_value OR then Token t OR
      else if t = TokenType_value AND then Token t AND
      else if t = TokenType_value NOT then Token t NOT
      else if t = TokenType_value LPAREN then Token t LPAREN
      else if t = TokenType_value RPAREN then Token t RPAREN
      else if t = TokenType_value EOF then Token t EOF
      else Token t TERM_T)"

fun lexer :: "string list \<Rightarrow> Token list" where
  "lexer [] = []"
| "lexer (t # ts) = lex_one t # lexer ts"

section \<open>Parse trees and the recursive-descent parser\<close>

datatype ParseTree =
    BinOp ParseTree Token ParseTree
  | Term Token
  | UnaryOp Token ParseTree

text \<open>
  The exceptions the module can raise. \<open>ExpressionParserException\<close> carries its
  message. \<open>UnboundLocalError\<close> is what Python raises when \<open>_term\<close> reaches
  \<open>return node\<close> with \<open>node\<close> never assigned; \<open>StopIteration\<close> is what \<open>next\<close> raises on an
  exhausted token stream. \<open>ZeroDivisionError\<close> and \<open>ValueError\<close> are raised by the
  arithmetic of rank\_bm25\_eval.py (\<open>/\<close> by zero, \<open>log2\<close> outside its domain).
\<close>

datatype error =
    ExpressionParserException string
  | UnboundLocalError string
  | StopIteration
  | ZeroDivisionError
  | ValueError

text \<open>
  The parser object: the token under the cursor and the rest of the iterator. The
  tokens come from the external tokenizer (\<open>word_tokenize\<close>), so the constructor is
  modelled from the tokenizer's output onwards.
\<close>

record Parser =
  current_token :: Token
  tokens_stream :: "Token list"

definition Parser_init :: "string list \<Rightarrow> error + Parser" where
  "Parser_init tokens =
     (case lexer (tokens @ [TokenType_value EOF]) of
        [] \<Rightarrow> Inl StopIteration
      | t # ts \<Rightarrow> Inr \<lparr>current_token = t, tokens_stream = ts\<rparr>)"

definition ingest :: "TokenType \<Rightarrow> Parser \<Rightarrow> error + Parser" where
  "ingest ty p =
     (if tok_type (current_token p) = ty then
        (case tokens_stream p of
           [] \<Rightarrow> Inl StopIteration
         | t # ts \<Rightarrow> Inr \<lparr>current_token = t, tokens_stream = ts\<rparr>)
      else Inl (ExpressionParserException
                  (''Invalid Syntax. Expected type: '' @ TokenType_str ty @ '', received: ''
                     @ TokenType_str (tok_type (current_token p)))))"

text \<open>
  The three mutually recursive methods and their two \<open>while\<close> loops. The first argument
  bounds the depth of nested calls; \<open>None\<close> means the bound was reached before the
  method returned. \<open>parse\<close> below supplies a bound that is always enough
  (lemma \<open>parse_returns\<close>).
\<close>

fun expression :: "nat \<Rightarrow> Parser \<Rightarrow> (error + ParseTree \<times> Parser) option"
  and expression_loop :: "nat \<Rightarrow> ParseTree \<Rightarrow> Parser \<Rightarrow> (error + ParseTree \<times> Parser) option"
  and conjunction :: "nat \<Rightarrow> Parser \<Rightarrow> (error + ParseTree \<times> Parser) option"
  and conjunction_loop :: "nat \<Rightarrow> ParseTree \<Rightarrow> Parser \<Rightarrow> (error + ParseTree \<times> Parser) option"
  and term_p :: "nat \<Rightarrow> Parser \<Rightarrow> (error + ParseTree \<times> Parser) option"
where
  "expression 0 p = None"
| "expression (Suc n) p =
     (case conjunction n p of
        None \<Rightarrow> None
      | Some (Inl e) \<Rightarrow> Some (Inl e)
      | Some (Inr (node, p1)) \<Rightarrow> expression_loop n node p1)"
| "expression_loop 0 node p = None"
| "expression_loop (Suc n) node p =
     (if tok_type (current_token p) = OR then
        (let op_tok = current_token p in
         case ingest OR p of
           Inl e \<Rightarrow> Some (Inl e)
         | Inr p1 \<Rightarrow>
             (case conjunction n p1 of
                None \<Rightarrow> None
              | Some (Inl e) \<Rightarrow> Some (Inl e)
              | Some (Inr (r, p2)) \<Rightarrow> expression_loop n (BinOp node op_tok r) p2))
      else Some (Inr (node, p)))"
| "conjunction 0 p = None"
| "conjunction (Suc n) p =
     (case term_p n p of
        None \<Rightarrow> None
      | Some (Inl e) \<Rightarrow> Some (Inl e)
      | Some (Inr (node, p1)) \<Rightarrow> conjunction_loop n node p1)"
| "conjunction_loop 0 node p = None"
| "conjunction_loop (Suc n) node p =
     (if tok_type (current_token p) = AND then
        (let op_tok = current_token p in
         case ingest AND p of
           Inl e \<Rightarrow> Some (Inl e)
         | Inr p1 \<Rightarrow>
             (case term_p n p1 of
                None \<Rightarrow> None
              | Some (Inl e) \<Rightarrow> Some (Inl e)
              | Some (Inr (r, p2)) \<Rightarrow> conjunction_loop n (BinOp node op_tok r) p2))
      else Some (Inr (node, p)))"
| "term_p 0 p = None"
| "term_p (Suc n) p =
     (let tok = current_token p in
      if tok_type tok = NOT then
        (case ingest NOT p of
           Inl e \<Rightarrow> Some (Inl e)
         | Inr p1 \<Rightarrow>
             (case term_p n p1 of
                None \<Rightarrow> None
              | Some (Inl e) \<Rightarrow> Some (Inl e)
              | Some (Inr (child, p2)) \<Rightarrow> Some (Inr (UnaryOp tok child, p2))))
      else if tok_type tok = TERM_T then
        (case ingest TERM_T p of
           Inl e \<Rightarrow> Some (Inl e)
         | Inr p1 \<Rightarrow> Some (Inr (Term tok, p1)))
      else if tok_type tok = LPAREN then
        (case ingest LPAREN p of
           Inl e \<Rightarrow> Some (Inl e)
         | Inr p1 \<Rightarrow>
             (case expression n p1 of
                None \<Rightarrow> None
              | Some (Inl e) \<Rightarrow> Some (Inl e)
              | Some (Inr (node, p2)) \<Rightarrow>
                  (case ingest RPAREN p2 of
                     Inl e \<Rightarrow> Some (Inl e)
                   | Inr p3 \<Rightarrow> Some (Inr (node, p3)))))
      else Some (Inl (UnboundLocalError
                  ''local variable 'node' referenced before assignment'')))"

definition parse :: "Parser \<Rightarrow> (error + ParseTree \<times> Parser) option" where
  "parse p = expression (3 * length (tokens_stream p) + 3) p"

section \<open>Postings, the index interface and the postings algebra\<close>

record Posting =
  docid :: int
  positions :: "int list"

text \<open>
  The index is an external collaborator; both modules only call its accessors, so it is a
  record of them. The parameter \<open>'p\<close> is what \<open>get_postings\<close> hands out: expression\_eval.py
  iterates over the returned value as a list of postings (\<open>'p = Posting list\<close>), while
  rank\_bm25\_eval.py treats it as a reference to a mutable \<open>TermPostings\<close> object.
  \<open>None\<close> is Python's \<open>None\<close>: the term is not indexed.
\<close>

record 'p InvertedIndex =
  get_postings :: "string \<Rightarrow> 'p option"
  get_universe :: "int list"
  get_doc_count :: int
  get_doclength :: "int \<Rightarrow> int"
  avg_doclength :: real

text \<open>
  Modelled from the spec: the module \<open>search\<close> (\<open>intersect\<close>, \<open>union\<close>, \<open>neg\<close>) is not part of
  the sources. \<open>intersect a b\<close> is a merge-join over postings sorted by docid, keeping \<open>a\<close>'s
  entry for every docid present in both.
\<close>

fun intersect :: "Posting list \<Rightarrow> Posting list \<Rightarrow> Posting list" where
  "intersect [] b = []"
| "intersect (p # ps) [] = []"
| "intersect (p # ps) (q # qs) =
     (if docid p = docid q then p # intersect ps qs
      else if docid p < docid q then intersect ps (q # qs)
      else intersect (p # ps) qs)"

text \<open>
  Modelled from the spec: \<open>search.union\<close> on two present lists is a merge giving one posting
  per docid present in either, preferring \<open>a\<close>'s entry when both have the docid.
\<close>

fun union_merge :: "Posting list \<Rightarrow> Posting list \<Rightarrow> Posting list" where
  "union_merge [] b = b"
| "union_merge (p # ps) [] = p # ps"
| "union_merge (p # ps) (q # qs) =
     (if docid p = docid q then p # union_merge ps qs
      else if docid p < docid q then p # union_merge ps (q # qs)
      else q # union_merge (p # ps) qs)"

text \<open>
  Modelled from the spec: the evaluator passes its children's results to \<open>search.union\<close>
  as they are, \<open>None\<close> included; the spec has an absent argument treated as the empty list.
\<close>

definition union :: "Posting list option \<Rightarrow> Posting list option \<Rightarrow> Posting list" where
  "union a b =
     union_merge (case a of None \<Rightarrow> [] | Some xs \<Rightarrow> xs) (case b of None \<Rightarrow> [] | Some ys \<Rightarrow> ys)"

text \<open>
  Modelled from the spec: \<open>search.neg universe a\<close> gives a posting with empty positions for
  every docid of the universe that \<open>a\<close> does not contain; an absent \<open>a\<close> behaves as the
  empty list.
\<close>

definition neg :: "int list \<Rightarrow> Posting list option \<Rightarrow> Posting list" where
  "neg universe a =
     map (\<lambda>d. \<lparr>docid = d, positions = []\<rparr>)
       (filter (\<lambda>d. d \<notin> docid ` set (case a of None \<Rightarrow> [] | Some xs \<Rightarrow> xs)) universe)"

section \<open>The result aggregator (class EvaluationResult of expression\_eval.py)\<close>

record ResultEntry =
  res_positions :: "int list"
  res_terms :: "string list"

record EvaluationResult =
  postings_map :: "string \<rightharpoonup> Posting list"
  term_map :: "int \<rightharpoonup> string list"
  query_result :: "Posting list option"
  results :: "(int \<rightharpoonup> ResultEntry) option"
  complete :: bool

definition EvaluationResult_init :: EvaluationResult where
  "EvaluationResult_init =
     \<lparr>postings_map = Map.empty, term_map = Map.empty, query_result = None,
      results = None, complete = False\<rparr>"

text \<open>
  One round of the loop of \<open>add_postings\<close>: create the list for a docid that has none, then
  append the term.
\<close>

definition add_term :: "string \<Rightarrow> (int \<rightharpoonup> string list) \<Rightarrow> Posting \<Rightarrow> (int \<rightharpoonup> string list)" where
  "add_term t tm p =
     (let tm1 = (if docid p \<notin> dom tm then tm(docid p \<mapsto> []) else tm) in
      case tm1 (docid p) of
        None \<Rightarrow> tm1
      | Some ts \<Rightarrow> tm1(docid p \<mapsto> ts @ [t]))"

definition add_postings :: "EvaluationResult \<Rightarrow> string \<Rightarrow> Posting list \<Rightarrow> EvaluationResult" where
  "add_postings self t ps =
     self\<lparr>postings_map := (postings_map self)(t \<mapsto> ps),
          term_map := foldl (add_term t) (term_map self) ps\<rparr>"

definition update_results :: "EvaluationResult \<Rightarrow> Posting list \<Rightarrow> EvaluationResult" where
  "update_results self qr =
     self\<lparr>query_result := Some qr,
          results := Some (foldl (\<lambda>m posting. m(docid posting \<mapsto>
                       \<lparr>res_positions = positions posting,
                        res_terms = (if docid posting \<in> dom (term_map self)
                                     then (case term_map self (docid posting) of
                                             None \<Rightarrow> [] | Some ts \<Rightarrow> ts)
                                     else [])\<rparr>)) Map.empty qr),
          complete := True\<rparr>"

text \<open>
  The accessor assigns a local variable in both branches and ends without a \<open>return\<close>
  statement, so the call evaluates to \<open>None\<close>.
\<close>

definition EvaluationResult_get_postings :: "EvaluationResult \<Rightarrow> string \<Rightarrow> Posting list option" where
  "EvaluationResult_get_postings self t =
     (let postings = (if t \<in> dom (postings_map self) then postings_map self t else Some [])
      in None)"

definition get_terms :: "EvaluationResult \<Rightarrow> int \<Rightarrow> string list" where
  "get_terms self d =
     (let terms = (if d \<in> dom (term_map self) then term_map self d else None)
      in case terms of None \<Rightarrow> [] | Some ts \<Rightarrow> ts)"

section \<open>The boolean evaluator\<close>

definition visit_term ::
  "Posting list InvertedIndex \<Rightarrow> Token \<Rightarrow> EvaluationResult \<Rightarrow> Posting list option \<times> EvaluationResult" where
  "visit_term idx tok er =
     (let postings = get_postings idx (tok_value tok) in
      case postings of
        None \<Rightarrow> (postings, add_postings er (tok_value tok) [])
      | Some ps \<Rightarrow> (postings, add_postings er (tok_value tok) ps))"

text \<open>
  \<open>_visit\<close> with \<open>_visit_binop\<close> and \<open>_visit_unaryop\<close>: the evaluation result is threaded
  through the walk, and an exception abandons it. A node of the datatype is always one
  of the three classes, so the \<open>Invalid Node Type\<close> branch has no counterpart.
\<close>

fun visit ::
  "Posting list InvertedIndex \<Rightarrow> ParseTree \<Rightarrow> EvaluationResult
     \<Rightarrow> error + Posting list option \<times> EvaluationResult" where
  "visit idx (BinOp l op r) er =
     (if tok_type op = AND then
        (case visit idx l er of
           Inl e \<Rightarrow> Inl e
         | Inr (left_postings, er1) \<Rightarrow>
             (case visit idx r er1 of
                Inl e \<Rightarrow> Inl e
              | Inr (right_postings, er2) \<Rightarrow>
                  (case left_postings of
                     None \<Rightarrow>
                       (case right_postings of
                          None \<Rightarrow> Inr (None, er2)
                        | Some b \<Rightarrow> Inr (right_postings, er2))
                   | Some a \<Rightarrow>
                       (case right_postings of
                          None \<Rightarrow> Inr (left_postings, er2)
                        | Some b \<Rightarrow> Inr (Some (intersect a b), er2)))))
      else if tok_type op = OR then
        (case visit idx l er of
           Inl e \<Rightarrow> Inl e
         | Inr (left_postings, er1) \<Rightarrow>
             (case visit idx r er1 of
                Inl e \<Rightarrow> Inl e
              | Inr (right_postings, er2) \<Rightarrow>
                  Inr (Some (union left_postings right_postings), er2)))
      else Inl (ExpressionParserException ''Invalid Binary Operator Type: Aborting!''))"
| "visit idx (Term tok) er = Inr (visit_term idx tok er)"
| "visit idx (UnaryOp op child) er =
     (case visit idx child er of
        Inl e \<Rightarrow> Inl e
      | Inr (child_postings, er1) \<Rightarrow> Inr (Some (neg (get_universe idx) child_postings), er1))"

text \<open>
  The evaluator object: its parser, the index it was given and the result under
  construction. \<open>evaluate\<close> resets the result, parses, walks the tree, replaces an absent
  answer by the empty list and finalises; the object it leaves behind is returned, its
  \<open>eval_result\<close> being what the caller receives.
\<close>

record Evaluator =
  ev_parser :: Parser
  ev_index :: "Posting list InvertedIndex"
  eval_result :: EvaluationResult

definition evaluate :: "Evaluator \<Rightarrow> (error + Evaluator) option" where
  "evaluate self =
     (case parse (ev_parser self) of
        None \<Rightarrow> None
      | Some (Inl e) \<Rightarrow> Some (Inl e)
      | Some (Inr (tree, parser1)) \<Rightarrow>
          (case visit (ev_index self) tree EvaluationResult_init of
             Inl e \<Rightarrow> Some (Inl e)
           | Inr (qr, er) \<Rightarrow>
               Some (Inr (self\<lparr>ev_parser := parser1,
                               eval_result :=
                                 update_results er (case qr of None \<Rightarrow> [] | Some q \<Rightarrow> q)\<rparr>))))"

text \<open>
  The two entry points as a caller uses them, from the tokenizer's output:
  \<open>Parser(q).parse()\<close> and \<open>Evaluator(Parser(q), index).evaluate()\<close>.
\<close>

definition parse_query :: "string list \<Rightarrow> (error + ParseTree) option" where
  "parse_query tokens =
     (case Parser_init tokens of
        Inl e \<Rightarrow> Some (Inl e)
      | Inr p \<Rightarrow>
          (case parse p of
             None \<Rightarrow> None
           | Some (Inl e) \<Rightarrow> Some (Inl e)
           | Some (Inr (tree, p1)) \<Rightarrow> Some (Inr tree)))"

definition evaluate_query ::
  "string list \<Rightarrow> Posting list InvertedIndex \<Rightarrow> (error + EvaluationResult) option" where
  "evaluate_query tokens idx =
     (case Parser_init tokens of
        Inl e \<Rightarrow> Some (Inl e)
      | Inr p \<Rightarrow>
          (case evaluate \<lparr>ev_parser = p, ev_index = idx, eval_result = EvaluationResult_init\<rparr> of
             None \<Rightarrow> None
           | Some (Inl e) \<Rightarrow> Some (Inl e)
           | Some (Inr ev) \<Rightarrow> Some (Inr (eval_result ev))))"

section \<open>BM25 ranking (rank\_bm25\_eval.py)\<close>

text \<open>
  \<open>get_postings\<close> hands out \<open>TermPostings\<close> objects, and \<open>evaluate\<close> assigns to their \<open>term\<close>
  attribute, so the objects live in a store and the index returns their addresses.
  (\<open>term\<close> is a keyword of the logic; the attributes are \<open>tp_term\<close> and \<open>tp_postings\<close>.)
\<close>

record TermPostings =
  tp_term :: string
  tp_postings :: "Posting list"

type_synonym store = "nat \<Rightarrow> TermPostings"

text \<open>
  Python floats are idealised as real numbers; the two ways the arithmetic can raise are
  kept as error results.
\<close>

record RankedSearchBM25 =
  bm_query :: "string list"
  bm_index :: "nat InvertedIndex"
  bm_k1 :: real
  bm_b :: real

text \<open>
  The loop of \<open>evaluate\<close>: every query token whose lookup is not \<open>None\<close> has the returned
  object's \<open>term\<close> overwritten and the object appended to \<open>term_postings_list\<close>.
\<close>

fun collect_postings ::
  "nat InvertedIndex \<Rightarrow> string list \<Rightarrow> nat list \<Rightarrow> store \<Rightarrow> nat list \<times> store" where
  "collect_postings idx [] tpl h = (tpl, h)"
| "collect_postings idx (t # ts) tpl h =
     (case get_postings idx t of
        None \<Rightarrow> collect_postings idx ts tpl h
      | Some a \<Rightarrow> collect_postings idx ts (tpl @ [a]) (h(a := (h a)\<lparr>tp_term := t\<rparr>)))"

definition compute_bm25_term :: "RankedSearchBM25 \<Rightarrow> real \<Rightarrow> nat \<Rightarrow> int \<Rightarrow> error + real" where
  "compute_bm25_term self idf tf dl =
     (let davg = avg_doclength (bm_index self) in
      if davg = 0 then Inl ZeroDivisionError
      else
        (let den = bm_k1 self * ((1 - bm_b self) + bm_b self * (real_of_int dl / davg)) + real tf in
         if den = 0 then Inl ZeroDivisionError
         else Inr (idf * ((bm_k1 self + 1) * real tf) / den)))"

text \<open>
  The accumulator dictionary keeps insertion order (the order \<open>items()\<close> later yields), so
  it is an association list with one entry per key.
\<close>

definition acc_bump :: "int \<Rightarrow> real \<Rightarrow> (int \<times> real) list \<Rightarrow> (int \<times> real) list" where
  "acc_bump d s acc =
     (let acc1 = (if d \<notin> fst ` set acc then acc @ [(d, 0)] else acc) in
      map (\<lambda>(k, v). if k = d then (k, v + s) else (k, v)) acc1)"

fun score_postings ::
  "RankedSearchBM25 \<Rightarrow> real \<Rightarrow> Posting list \<Rightarrow> (int \<times> real) list \<Rightarrow> error + (int \<times> real) list" where
  "score_postings self idf [] acc = Inr acc"
| "score_postings self idf (p # ps) acc =
     (let tf = length (positions p);
          dl = get_doclength (bm_index self) (docid p) in
      case compute_bm25_term self idf tf dl of
        Inl e \<Rightarrow> Inl e
      | Inr s \<Rightarrow> score_postings self idf ps (acc_bump (docid p) s acc))"

definition idf_of :: "int \<Rightarrow> Posting list \<Rightarrow> error + real" where
  "idf_of doc_count ps =
     (if ps \<noteq> [] then
        (let x = real_of_int doc_count / real (length ps) in
         if x \<le> 0 then Inl ValueError else Inr (log 2 x))
      else Inr 0)"

fun score_terms ::
  "RankedSearchBM25 \<Rightarrow> int \<Rightarrow> TermPostings list \<Rightarrow> (int \<times> real) list \<Rightarrow> error + (int \<times> real) list" where
  "score_terms self doc_count [] acc = Inr acc"
| "score_terms self doc_count (tp # tps) acc =
     (case idf_of doc_count (tp_postings tp) of
        Inl e \<Rightarrow> Inl e
      | Inr idf \<Rightarrow>
          (case score_postings self idf (tp_postings tp) acc of
             Inl e \<Rightarrow> Inl e
           | Inr acc1 \<Rightarrow> score_terms self doc_count tps acc1))"

definition search_scored :: "RankedSearchBM25 \<Rightarrow> TermPostings list \<Rightarrow> error + (int \<times> real) list" where
  "search_scored self term_postings_list =
     score_terms self (get_doc_count (bm_index self)) term_postings_list []"

text \<open>
  The aggregator of the ranked path is the class \<open>EvaluationResult\<close> of module
  \<open>eval_result\<close>, which is not part of the sources; what \<open>_build_result\<close> does with it is
  recorded as the calls it makes: one \<open>add_postings\<close> per list entry, then
  \<open>update_ranked_results\<close> with the sorted pairs. \<open>sorted\<close> with \<open>reverse=True\<close> is the stable
  sort by descending key.
\<close>

record RankedResult =
  added_postings :: "(string \<times> Posting list) list"
  ranked_results :: "(int \<times> real) list"

definition build_result :: "TermPostings list \<Rightarrow> (int \<times> real) list \<Rightarrow> RankedResult" where
  "build_result term_postings_list scored_result =
     (let ranked_score = sort_key (\<lambda>item. - snd item) scored_result in
      \<lparr>added_postings = map (\<lambda>tp. (tp_term tp, tp_postings tp)) term_postings_list,
       ranked_results = ranked_score\<rparr>)"

text \<open>
  \<open>RankedSearchBM25.evaluate\<close>. The store is returned next to the outcome: the
  assignments of the first loop have happened whether or not the scoring raises.
\<close>

definition evaluate_bm25 :: "RankedSearchBM25 \<Rightarrow> store \<Rightarrow> (error + RankedResult) \<times> store" where
  "evaluate_bm25 self h =
     (case collect_postings (bm_index self) (bm_query self) [] h of
        (refs, h1) \<Rightarrow>
          (let term_postings_list = map h1 refs in
           case search_scored self term_postings_list of
             Inl e \<Rightarrow> (Inl e, h1)
           | Inr scored_results \<Rightarrow> (Inr (build_result term_postings_list scored_results), h1)))"

section \<open>Vocabulary of the claims and example indexes\<close>

text \<open>
  The terms a walk visits, in visiting order (every leaf of the tree), what the index holds
  for a term with \<open>None\<close> read as no postings, and the document-to-terms map that
  registering those terms one after the other produces.
\<close>

fun terms_of :: "ParseTree \<Rightarrow> string list" where
  "terms_of (BinOp l op r) = terms_of l @ terms_of r"
| "terms_of (Term tok) = [tok_value tok]"
| "terms_of (UnaryOp op child) = terms_of child"

definition postings_or_empty :: "Posting list InvertedIndex \<Rightarrow> string \<Rightarrow> Posting list" where
  "postings_or_empty idx t = (case get_postings idx t of None \<Rightarrow> [] | Some ps \<Rightarrow> ps)"

definition record_terms ::
  "Posting list InvertedIndex \<Rightarrow> (int \<rightharpoonup> string list) \<Rightarrow> string list \<Rightarrow> (int \<rightharpoonup> string list)" where
  "record_terms idx tm ts = foldl (\<lambda>m t. foldl (add_term t) m (postings_or_empty idx t)) tm ts"

text \<open>
  An index over six documents built from a table of terms and docids, each posting with
  the single position 0; terms outside the table are not indexed.
\<close>

definition index_of :: "(string \<times> int list) list \<Rightarrow> Posting list InvertedIndex" where
  "index_of table =
     \<lparr>get_postings = map_of (map (\<lambda>(t, ds). (t, map (\<lambda>d. \<lparr>docid = d, positions = [0]\<rparr>) ds)) table),
      get_universe = [1, 2, 3, 4, 5, 6], get_doc_count = 6, get_doclength = (\<lambda>d. 1),
      avg_doclength = 1\<rparr>"

text \<open>
  The partial score of one posting as the specification writes it, to be compared with
  what \<open>compute_bm25_term\<close> computes, and the accumulated value of a docid with a missing key
  read as 0.
\<close>

definition score_term :: "real \<Rightarrow> real \<Rightarrow> real \<Rightarrow> real \<Rightarrow> real \<Rightarrow> real \<Rightarrow> real" where
  "score_term idf k b tf dl davg = idf * (k + 1) * tf / (k * ((1 - b) + b * dl / davg) + tf)"

abbreviation (input) acc_val :: "(int \<times> real) list \<Rightarrow> int \<Rightarrow> real" where
  "acc_val acc d \<equiv> (case map_of acc d of None \<Rightarrow> 0 | Some v \<Rightarrow> v)"

text \<open>
  A two-document index for the ranked path that folds case: it answers \<open>Oil\<close> and \<open>oil\<close> with
  the same object (address 0, whose term is \<open>oil\<close>), \<open>gas\<close> with the object at address 1,
  and nothing else.
\<close>

definition oil_index :: "nat InvertedIndex" where
  "oil_index =
     \<lparr>get_postings = (\<lambda>t. if t = ''oil'' \<or> t = ''Oil'' then Some 0
                          else if t = ''gas'' then Some 1 else None),
      get_universe = [1, 2], get_doc_count = 2, get_doclength = (\<lambda>d. 1), avg_doclength = 1\<rparr>"

definition oil_store :: store where
  "oil_store a =
     (if a = 0 then \<lparr>tp_term = ''oil'', tp_postings = [\<lparr>docid = 2, positions = [0]\<rparr>]\<rparr>
      else \<lparr>tp_term = ''gas'',
             tp_postings = [\<lparr>docid = 1, positions = [0]\<rparr>, \<lparr>docid = 2, positions = [3]\<rparr>]\<rparr>)"

definition oil_search :: "string list \<Rightarrow> RankedSearchBM25" where
  "oil_search q = \<lparr>bm_query = q, bm_index = oil_index, bm_k1 = 1, bm_b = 1 / 2\<rparr>"

section \<open>The parser returns\<close>

text \<open>
  Every successful \<open>_ingest\<close> moves the cursor by one token, every successful \<open>_term\<close>,
  \<open>_conjunction\<close> and \<open>_expression\<close> consumes at least one token, and the loops never give
  tokens back.
\<close>

lemma ingest_length:
  "ingest ty p = Inr p1 \<Longrightarrow> Suc (length (tokens_stream p1)) = length (tokens_stream p)"
  by (auto simp: ingest_def split: if_splits list.splits)

lemma parser_consumes:
  "(expression n p = Some (Inr (t, p')) \<longrightarrow> length (tokens_stream p') < length (tokens_stream p))"
  "(expression_loop n node p = Some (Inr (t, p')) \<longrightarrow> length (tokens_stream p') \<le> length (tokens_stream p))"
  "(conjunction n p = Some (Inr (t, p')) \<longrightarrow> length (tokens_stream p') < length (tokens_stream p))"
  "(conjunction_loop n node p = Some (Inr (t, p')) \<longrightarrow> length (tokens_stream p') \<le> length (tokens_stream p))"
  "(term_p n p = Some (Inr (t, p')) \<longrightarrow> length (tokens_stream p') < length (tokens_stream p))"
proof (induction n p and n node p and n p and n node p and n p arbitrary: t p' and t p' and t p' and t p' and t p'
    rule: expression_expression_loop_conjunction_conjunction_loop_term_p.induct)
  case (1 p)
  then show ?case by simp
next
  case (2 n p)
  then show ?case
    by (fastforce split: option.splits sum.splits)
next
  case (3 node p)
  then show ?case by simp
next
  case (4 n node p)
  then show ?case
    by (fastforce simp: Let_def dest: ingest_length split: option.splits sum.splits if_splits)
next
  case (5 p)
  then show ?case by simp
next
  case (6 n p)
  then show ?case by (fastforce split: option.splits sum.splits)
next
  case (7 node p)
  then show ?case by simp
next
  case (8 n node p)
  then show ?case
    by (fastforce simp: Let_def dest: ingest_length split: option.splits sum.splits if_splits)
next
  case (9 p)
  then show ?case by simp
next
  case (10 n p)
  then show ?case
    by (fastforce simp: Let_def dest: ingest_length split: option.splits sum.splits if_splits)
qed

text \<open>
  A stream of \<open>L\<close> tokens behind the cursor never nests calls deeper than \<open>3 * L + 3\<close>, the
  bound \<open>parse\<close> passes: the parser always returns, with a tree or with an exception.
\<close>

lemma parser_fuel:
  "length (tokens_stream p) = L \<Longrightarrow>
     (\<forall>n. 3 * L + 1 \<le> n \<longrightarrow> term_p n p \<noteq> None) \<and>
     (\<forall>n node. 3 * L + 1 \<le> n \<longrightarrow> conjunction_loop n node p \<noteq> None) \<and>
     (\<forall>n. 3 * L + 2 \<le> n \<longrightarrow> conjunction n p \<noteq> None) \<and>
     (\<forall>n node. 3 * L + 1 \<le> n \<longrightarrow> expression_loop n node p \<noteq> None) \<and>
     (\<forall>n. 3 * L + 3 \<le> n \<longrightarrow> expression n p \<noteq> None)"
proof (induction L arbitrary: p rule: less_induct)
  case (less L)
  note IH = less.IH
  note len = less.prems
  have T: "term_p n p \<noteq> None" if "3 * L + 1 \<le> n" for n
  proof -
    from that obtain m where n: "n = Suc m" and m: "3 * L \<le> m"
      by (cases n) auto
    show ?thesis
    proof (cases "tok_type (current_token p) = NOT")
      case True
      show ?thesis
      proof (cases "ingest NOT p")
        case (Inl e)
        then show ?thesis using True n by (simp add: Let_def)
      next
        case (Inr p1)
        from ingest_length[OF Inr] len have l1: "Suc (length (tokens_stream p1)) = L" by simp
        then have "length (tokens_stream p1) < L" by simp
        from IH[OF this refl] have "\<forall>n. 3 * length (tokens_stream p1) + 1 \<le> n \<longrightarrow> term_p n p1 \<noteq> None"
          by blast
        moreover have "3 * length (tokens_stream p1) + 1 \<le> m" using l1 m by simp
        ultimately have "term_p m p1 \<noteq> None" by blast
        then show ?thesis using True n Inr
          by (auto simp: Let_def split: option.splits sum.splits)
      qed
    next
      case nN: False
      show ?thesis
      proof (cases "tok_type (current_token p) = LPAREN")
        case True
        show ?thesis
        proof (cases "ingest LPAREN p")
          case (Inl e)
          then show ?thesis using True n by (simp add: Let_def)
        next
          case (Inr p1)
          from ingest_length[OF Inr] len have l1: "Suc (length (tokens_stream p1)) = L" by simp
          then have "length (tokens_stream p1) < L" by simp
          from IH[OF this refl] have "\<forall>n. 3 * length (tokens_stream p1) + 3 \<le> n \<longrightarrow> expression n p1 \<noteq> None"
            by blast
          moreover have "3 * length (tokens_stream p1) + 3 \<le> m" using l1 m by simp
          ultimately have "expression m p1 \<noteq> None" by blast
          then show ?thesis using True n Inr
            by (auto simp: Let_def split: option.splits sum.splits)
        qed
      next
        case False
        then show ?thesis using nN n
          by (auto simp: Let_def split: option.splits sum.splits)
      qed
    qed
  qed
  have CL: "conjunction_loop n node p \<noteq> None" if "3 * L + 1 \<le> n" for n node
  proof -
    from that obtain m where n: "n = Suc m" and m: "3 * L \<le> m"
      by (cases n) auto
    show ?thesis
    proof (cases "tok_type (current_token p) = AND")
      case False
      then show ?thesis using n by simp
    next
      case True
      show ?thesis
      proof (cases "ingest AND p")
        case (Inl e)
        then show ?thesis using True n by (simp add: Let_def)
      next
        case (Inr p1)
        from ingest_length[OF Inr] len have l1: "Suc (length (tokens_stream p1)) = L" by simp
        then have lt1: "length (tokens_stream p1) < L" by simp
        from IH[OF lt1 refl] have "\<forall>n. 3 * length (tokens_stream p1) + 1 \<le> n \<longrightarrow> term_p n p1 \<noteq> None"
          by blast
        moreover have "3 * length (tokens_stream p1) + 1 \<le> m" using l1 m by simp
        ultimately have t: "term_p m p1 \<noteq> None" by blast
        have "conjunction_loop m node' p2 \<noteq> None" if r: "term_p m p1 = Some (Inr (t, p2))" for t p2 node'
        proof -
          from parser_consumes(5)[of m p1 t p2] r have "length (tokens_stream p2) < length (tokens_stream p1)"
            by simp
          with lt1 l1 have lt2: "length (tokens_stream p2) < L" and "3 * length (tokens_stream p2) + 1 \<le> m"
            using m by simp_all
          with IH[OF lt2 refl] show ?thesis by blast
        qed
        with t show ?thesis using True n Inr
          by (auto simp: Let_def split: option.splits sum.splits)
      qed
    qed
  qed
  have C: "conjunction n p \<noteq> None" if "3 * L + 2 \<le> n" for n
  proof -
    from that obtain m where n: "n = Suc m" and m: "3 * L + 1 \<le> m"
      by (cases n) auto
    from T[OF m] have t: "term_p m p \<noteq> None" .
    have "conjunction_loop m node' p2 \<noteq> None" if r: "term_p m p = Some (Inr (t, p2))" for t p2 node'
    proof -
      from parser_consumes(5)[of m p t p2] r len have lt2: "length (tokens_stream p2) < L"
        by simp
      then have "3 * length (tokens_stream p2) + 1 \<le> m" using m by simp
      with IH[OF lt2 refl] show ?thesis by blast
    qed
    with t show ?thesis using n
      by (auto split: option.splits sum.splits)
  qed
  have EL: "expression_loop n node p \<noteq> None" if "3 * L + 1 \<le> n" for n node
  proof -
    from that obtain m where n: "n = Suc m" and m: "3 * L \<le> m"
      by (cases n) auto
    show ?thesis
    proof (cases "tok_type (current_token p) = OR")
      case False
      then show ?thesis using n by simp
    next
      case True
      show ?thesis
      proof (cases "ingest OR p")
        case (Inl e)
        then show ?thesis using True n by (simp add: Let_def)
      next
        case (Inr p1)
        from ingest_length[OF Inr] len have l1: "Suc (length (tokens_stream p1)) = L" by simp
        then have lt1: "length (tokens_stream p1) < L" by simp
        from IH[OF lt1 refl] have "\<forall>n. 3 * length (tokens_stream p1) + 2 \<le> n \<longrightarrow> conjunction n p1 \<noteq> None"
          by blast
        moreover have "3 * length (tokens_stream p1) + 2 \<le> m" using l1 m by simp
        ultimately have t: "conjunction m p1 \<noteq> None" by blast
        have "expression_loop m node' p2 \<noteq> None" if r: "conjunction m p1 = Some (Inr (t, p2))" for t p2 node'
        proof -
          from parser_consumes(3)[of m p1 t p2] r have "length (tokens_stream p2) < length (tokens_stream p1)"
            by simp
          with lt1 l1 have lt2: "length (tokens_stream p2) < L" and "3 * length (tokens_stream p2) + 1 \<le> m"
            using m by simp_all
          with IH[OF lt2 refl] show ?thesis by blast
        qed
        with t show ?thesis using True n Inr
          by (auto simp: Let_def split: option.splits sum.splits)
      qed
    qed
  qed
  have E: "expression n p \<noteq> None" if "3 * L + 3 \<le> n" for n
  proof -
    from that obtain m where n: "n = Suc m" and m: "3 * L + 2 \<le> m"
      by (cases n) auto
    from C[OF m] have t: "conjunction m p \<noteq> None" .
    have "expression_loop m node' p2 \<noteq> None" if r: "conjunction m p = Some (Inr (t, p2))" for t p2 node'
    proof -
      from parser_consumes(3)[of m p t p2] r len have lt2: "length (tokens_stream p2) < L"
        by simp
      then have "3 * length (tokens_stream p2) + 1 \<le> m" using m by simp
      with IH[OF lt2 refl] show ?thesis by blast
    qed
    with t show ?thesis using n
      by (auto split: option.splits sum.splits)
  qed
  from T CL C EL E show ?case by blast
qed

lemma parse_returns: "parse p \<noteq> None"
  using parser_fuel[OF refl, of p] by (simp add: parse_def)

section \<open>Parsing and evaluating small queries\<close>

lemma lex_one_TERM: "tok_type (lex_one x) = TERM_T \<Longrightarrow> lex_one x = Token x TERM_T"
  by (simp add: lex_one_def split: if_splits)

lemma lex_one_ops:
  "lex_one ''AND'' = Token ''AND'' AND" "lex_one ''OR'' = Token ''OR'' OR"
  "lex_one ''NOT'' = Token ''NOT'' NOT" "lex_one ''('' = Token ''('' LPAREN"
  "lex_one '')'' = Token '')'' RPAREN" "lex_one ''##EOF##'' = Token ''##EOF##'' EOF"
  by (simp_all add: lex_one_def)

lemma parse_x_AND_y:
  assumes "tok_type (lex_one x) = TERM_T" "tok_type (lex_one y) = TERM_T"
  shows "parse_query [x, ''AND'', y] =
     Some (Inr (BinOp (Term (Token x TERM_T)) (Token ''AND'' AND) (Term (Token y TERM_T))))"
  using assms
  by (simp add: parse_query_def Parser_init_def lex_one_TERM lex_one_ops parse_def ingest_def eval_nat_numeral)

lemma parse_a_OR_b_AND_c:
  assumes "tok_type (lex_one a) = TERM_T" "tok_type (lex_one b) = TERM_T" "tok_type (lex_one c) = TERM_T"
  shows "parse_query [a, ''OR'', b, ''AND'', c] =
     Some (Inr (BinOp (Term (Token a TERM_T)) (Token ''OR'' OR)
                  (BinOp (Term (Token b TERM_T)) (Token ''AND'' AND) (Term (Token c TERM_T)))))"
  using assms
  by (simp add: parse_query_def Parser_init_def lex_one_TERM lex_one_ops parse_def ingest_def eval_nat_numeral)

lemma parse_paren:
  assumes "tok_type (lex_one a) = TERM_T" "tok_type (lex_one b) = TERM_T" "tok_type (lex_one c) = TERM_T"
  shows "parse_query [''('', a, ''OR'', b, '')'', ''AND'', c] =
     Some (Inr (BinOp (BinOp (Term (Token a TERM_T)) (Token ''OR'' OR) (Term (Token b TERM_T)))
                   (Token ''AND'' AND) (Term (Token c TERM_T))))"
  using assms
  by (simp add: parse_query_def Parser_init_def lex_one_TERM lex_one_ops parse_def ingest_def eval_nat_numeral)

text \<open>
  The one \<open>_ingest\<close> that can meet a token of another kind is the one for the closing
  parenthesis; there the parser raises its own exception, naming both kinds.
\<close>

lemma parse_unclosed_parenthesis:
  "parse_query [''('', ''a''] =
     Some (Inl (ExpressionParserException
                  ''Invalid Syntax. Expected type: TokenType.RPAREN, received: TokenType.EOF''))"
  by (simp add: parse_query_def Parser_init_def lex_one_def parse_def ingest_def eval_nat_numeral)

lemma evaluate_query_via_parse:
  "evaluate_query tokens idx =
     (case parse_query tokens of
        None \<Rightarrow> None
      | Some (Inl e) \<Rightarrow> Some (Inl e)
      | Some (Inr tree) \<Rightarrow>
          (case visit idx tree EvaluationResult_init of
             Inl e \<Rightarrow> Some (Inl e)
           | Inr (qr, er) \<Rightarrow> Some (Inr (update_results er (case qr of None \<Rightarrow> [] | Some q \<Rightarrow> q)))))"
  by (auto simp: evaluate_query_def parse_query_def evaluate_def split: sum.splits option.splits)

lemma union_merge_Nil2: "union_merge a [] = a"
  by (cases a) simp_all

lemma docid_singleton: "map docid ps = [d] \<Longrightarrow> \<exists>p. ps = [p] \<and> docid p = d"
  by (cases ps) auto

lemma docid_pair: "map docid ps = [d, e] \<Longrightarrow> \<exists>p q. ps = [p, q] \<and> docid p = d \<and> docid q = e"
  by (cases ps; cases "tl ps") auto

lemma term_map_update_results: "term_map (update_results er q) = term_map er"
  by (simp add: update_results_def)

lemma get_terms_alt: "get_terms res d = (case term_map res d of None \<Rightarrow> [] | Some ts \<Rightarrow> ts)"
  by (auto simp: get_terms_def dom_def split: option.splits)

section \<open>What the aggregator records\<close>

lemma add_term_apply:
  "add_term t tm p d =
     (if d = docid p then Some ((case tm d of None \<Rightarrow> [] | Some ts \<Rightarrow> ts) @ [t]) else tm d)"
  by (auto simp: add_term_def Let_def split: option.splits)

lemma filter_docid_Nil: "(filter (\<lambda>p. docid p = d) ps = []) = (d \<notin> docid ` set ps)"
  by (auto simp: filter_empty_conv)

lemma foldl_add_term_apply:
  "foldl (add_term t) tm ps d =
     (if d \<in> docid ` set ps
      then Some ((case tm d of None \<Rightarrow> [] | Some ts \<Rightarrow> ts)
                   @ replicate (length (filter (\<lambda>p. docid p = d) ps)) t)
      else tm d)"
proof (induction ps arbitrary: tm)
  case Nil
  show ?case by simp
next
  case (Cons p ps)
  have "foldl (add_term t) tm (p # ps) d = foldl (add_term t) (add_term t tm p) ps d"
    by simp
  also have "\<dots> =
     (if d \<in> docid ` set ps
      then Some ((case add_term t tm p d of None \<Rightarrow> [] | Some ts \<Rightarrow> ts)
                   @ replicate (length (filter (\<lambda>p. docid p = d) ps)) t)
      else add_term t tm p d)"
    by (rule Cons.IH)
  also have "\<dots> =
     (if d \<in> docid ` set (p # ps)
      then Some ((case tm d of None \<Rightarrow> [] | Some ts \<Rightarrow> ts)
                   @ replicate (length (filter (\<lambda>p. docid p = d) (p # ps))) t)
      else tm d)"
    unfolding add_term_apply by (auto simp: replicate_append_same filter_docid_Nil)
  finally show ?case .
qed

lemma record_terms_append:
  "record_terms idx tm (xs @ ys) = record_terms idx (record_terms idx tm xs) ys"
  by (simp add: record_terms_def)

lemma visit_term_map:
  "visit idx tree er = Inr (res, er') \<Longrightarrow> term_map er' = record_terms idx (term_map er) (terms_of tree)"
proof (induction tree arbitrary: er res er')
  case (BinOp l op r)
  then show ?case
    by (auto simp: record_terms_append split: if_splits sum.splits option.splits)
next
  case (Term tok)
  then show ?case
    by (auto simp: visit_term_def add_postings_def record_terms_def postings_or_empty_def Let_def
        split: option.splits)
next
  case (UnaryOp op child)
  then show ?case
    by (auto split: sum.splits)
qed

lemma record_terms_set:
  "set (case record_terms idx tm ts d of None \<Rightarrow> [] | Some x \<Rightarrow> x) =
     set (case tm d of None \<Rightarrow> [] | Some x \<Rightarrow> x) \<union>
     {t \<in> set ts. d \<in> docid ` set (postings_or_empty idx t)}"
proof (induction ts arbitrary: tm)
  case Nil
  show ?case by (simp add: record_terms_def)
next
  case (Cons t ts)
  have "record_terms idx tm (t # ts) = record_terms idx (foldl (add_term t) tm (postings_or_empty idx t)) ts"
    by (simp add: record_terms_def)
  then show ?case
    by (auto simp: Cons.IH foldl_add_term_apply filter_docid_Nil split: option.splits if_splits)
qed

lemma evaluate_query_terms:
  assumes "evaluate_query tokens idx = Some (Inr res)"
  shows "\<exists>tree. parse_query tokens = Some (Inr tree) \<and>
           (\<forall>d. set (get_terms res d) =
                 {t \<in> set (terms_of tree). \<exists>ps. get_postings idx t = Some ps \<and> d \<in> docid ` set ps})"
proof -
  from assms obtain tree qr er where
    p: "parse_query tokens = Some (Inr tree)" and
    v: "visit idx tree EvaluationResult_init = Inr (qr, er)" and
    r: "res = update_results er (case qr of None \<Rightarrow> [] | Some q \<Rightarrow> q)"
    by (auto simp: evaluate_query_via_parse split: option.splits sum.splits)
  have tm: "term_map res = record_terms idx Map.empty (terms_of tree)"
    using visit_term_map[OF v] r by (simp add: term_map_update_results EvaluationResult_init_def)
  have "set (get_terms res d) =
          {t \<in> set (terms_of tree). \<exists>ps. get_postings idx t = Some ps \<and> d \<in> docid ` set ps}" for d
  proof -
    have "set (get_terms res d) = {t \<in> set (terms_of tree). d \<in> docid ` set (postings_or_empty idx t)}"
      unfolding get_terms_alt tm record_terms_set by simp
    also have "\<dots> = {t \<in> set (terms_of tree). \<exists>ps. get_postings idx t = Some ps \<and> d \<in> docid ` set ps}"
    proof -
      have "d \<in> docid ` set (postings_or_empty idx t) \<longleftrightarrow>
              (\<exists>ps. get_postings idx t = Some ps \<and> d \<in> docid ` set ps)" for t
        by (cases "get_postings idx t") (simp_all add: postings_or_empty_def)
      then show ?thesis by simp
    qed
    finally show ?thesis .
  qed
  with p show ?thesis by blast
qed

section \<open>Ranking: order, scores and the store\<close>

lemma ranked_descending:
  assumes "R = sort_key (\<lambda>item. - snd item) (xs :: (int \<times> real) list)"
    and "i < length R" "j < length R" "snd (R ! j) < snd (R ! i)"
  shows "i < j"
proof (rule ccontr)
  assume "\<not> i < j"
  then have ji: "j \<le> i" by simp
  have "sorted (map (\<lambda>item. - snd item) R)"
    unfolding assms(1) by (rule sorted_sort_key)
  with ji assms(2) have "map (\<lambda>item. - snd item) R ! j \<le> map (\<lambda>item. - snd item) R ! i"
    by (simp add: sorted_iff_nth_mono)
  with assms(2,3) have "snd (R ! i) \<le> snd (R ! j)" by simp
  with assms(4) show False by simp
qed

lemma oil_run:
  "evaluate_bm25 (oil_search [''Oil'', ''gas'', ''coal'']) oil_store =
     (Inr \<lparr>added_postings =
             [(''Oil'', [\<lparr>docid = 2, positions = [0]\<rparr>]),
              (''gas'', [\<lparr>docid = 1, positions = [0]\<rparr>, \<lparr>docid = 2, positions = [3]\<rparr>])],
           ranked_results = [(2, 1), (1, 0)]\<rparr>,
      oil_store(0 := \<lparr>tp_term = ''Oil'', tp_postings = [\<lparr>docid = 2, positions = [0]\<rparr>]\<rparr>))"
  by (simp add: evaluate_bm25_def oil_search_def oil_index_def oil_store_def search_scored_def
     idf_of_def compute_bm25_term_def acc_bump_def build_result_def Let_def fun_eq_iff)

lemma collect_postings_frame:
  "collect_postings idx ts tpl h = (refs, h') \<Longrightarrow>
     (\<forall>a. tp_postings (h' a) = tp_postings (h a)) \<and>
     (\<forall>a. (\<forall>t\<in>set ts. get_postings idx t \<noteq> Some a) \<longrightarrow> h' a = h a)"
proof (induction ts arbitrary: tpl h)
  case Nil
  then show ?case by simp
next
  case (Cons t ts)
  show ?case
  proof (cases "get_postings idx t")
    case None
    with Cons.prems have "collect_postings idx ts tpl h = (refs, h')" by simp
    from Cons.IH[OF this] None show ?thesis by simp
  next
    case (Some a0)
    let ?h1 = "h(a0 := (h a0)\<lparr>tp_term := t\<rparr>)"
    from Some Cons.prems have "collect_postings idx ts (tpl @ [a0]) ?h1 = (refs, h')" by simp
    from Cons.IH[OF this] Some show ?thesis by auto
  qed
qed

lemma collect_postings_term:
  "collect_postings idx ts tpl h = (refs, h') \<Longrightarrow> t \<in> set ts \<Longrightarrow> get_postings idx t = Some a \<Longrightarrow>
     \<exists>t'\<in>set ts. get_postings idx t' = Some a \<and> tp_term (h' a) = t'"
proof (induction ts arbitrary: tpl h t)
  case Nil
  then show ?case by simp
next
  case (Cons u ts)
  show ?case
  proof (cases "\<exists>t'\<in>set ts. get_postings idx t' = Some a")
    case True
    then obtain t' where t': "t' \<in> set ts" "get_postings idx t' = Some a" by blast
    obtain tpl1 h1 where step: "collect_postings idx ts tpl1 h1 = (refs, h')"
      using Cons.prems(1) by (cases "get_postings idx u") auto
    from Cons.IH[OF step t'] show ?thesis by auto
  next
    case False
    with Cons.prems have u: "get_postings idx u = Some a" by auto
    let ?h1 = "h(a := (h a)\<lparr>tp_term := u\<rparr>)"
    from u Cons.prems(1) have step: "collect_postings idx ts (tpl @ [a]) ?h1 = (refs, h')" by simp
    from collect_postings_frame[OF step] False have "h' a = ?h1 a" by blast
    then have "tp_term (h' a) = u" by simp
    with u show ?thesis by auto
  qed
qed

lemma collect_postings_refs:
  "fst (collect_postings idx ts tpl h) = tpl @ List.map_filter (get_postings idx) ts"
  by (induction ts arbitrary: tpl h) (auto split: option.splits)

lemma compute_bm25_term_formula:
  "compute_bm25_term self idf tf dl = Inr s \<Longrightarrow>
     s = score_term idf (bm_k1 self) (bm_b self) (real tf) (real_of_int dl)
           (avg_doclength (bm_index self))"
  by (auto simp: compute_bm25_term_def score_term_def Let_def algebra_simps split: if_splits)

lemma map_of_bump_map:
  "map_of (map (\<lambda>(k, v). if k = d then (k, v + s) else (k, v)) xs) d' =
     (if d' = d then map_option (\<lambda>v. v + s) (map_of xs d) else map_of xs d')"
  by (induction xs) auto

lemma map_of_acc_bump:
  "map_of (acc_bump d s acc) d' =
     (if d' = d then Some ((case map_of acc d of None \<Rightarrow> 0 | Some v \<Rightarrow> v) + s)
      else map_of acc d')"
proof (cases "d \<in> fst ` set acc")
  case True
  then obtain v where "map_of acc d = Some v"
    by (metis domD dom_map_of_conv_image_fst)
  with True show ?thesis
    by (simp add: acc_bump_def map_of_bump_map)
next
  case False
  then have n: "map_of acc d = None"
    by (simp add: map_of_eq_None_iff)
  with False show ?thesis
    by (auto simp: acc_bump_def map_of_bump_map map_add_def split: option.splits)
qed

lemma keys_acc_bump: "map fst (acc_bump d s acc) = (if d \<in> fst ` set acc then map fst acc else map fst acc @ [d])"
  by (auto simp: acc_bump_def Let_def case_prod_unfold comp_def cong: map_cong)

lemma distinct_acc_bump: "distinct (map fst acc) \<Longrightarrow> distinct (map fst (acc_bump d s acc))"
  by (auto simp: keys_acc_bump)

lemma score_postings_sum:
  "score_postings self idf ps acc = Inr acc' \<Longrightarrow>
     map_of acc' d =
       (if d \<in> docid ` set ps
        then Some (acc_val acc d +
               (\<Sum>p\<leftarrow>filter (\<lambda>p. docid p = d) ps.
                  score_term idf (bm_k1 self) (bm_b self) (real (length (positions p)))
                    (real_of_int (get_doclength (bm_index self) (docid p)))
                    (avg_doclength (bm_index self))))
        else map_of acc d)"
proof (induction ps arbitrary: acc)
  case Nil
  then show ?case by simp
next
  case (Cons p ps)
  from Cons.prems obtain s where
    s: "compute_bm25_term self idf (length (positions p)) (get_doclength (bm_index self) (docid p)) = Inr s"
    and rest: "score_postings self idf ps (acc_bump (docid p) s acc) = Inr acc'"
    by (auto simp: Let_def split: sum.splits)
  note f = compute_bm25_term_formula[OF s]
  show ?case
    unfolding Cons.IH[OF rest] map_of_acc_bump
    by (auto simp: f filter_docid_Nil[THEN iffD2])
qed

lemma distinct_score_postings:
  "score_postings self idf ps acc = Inr acc' \<Longrightarrow> distinct (map fst acc) \<Longrightarrow> distinct (map fst acc')"
  by (induction ps arbitrary: acc) (auto simp: Let_def distinct_acc_bump split: sum.splits)


lemma idf_of_log:
  "idf_of doc_count ps = Inr idf \<Longrightarrow> ps \<noteq> [] \<Longrightarrow>
     idf = log 2 (real_of_int doc_count / real (length ps))"
  by (auto simp: idf_of_def Let_def split: if_splits)

lemma sum_without_docid:
  "\<forall>tp\<in>set tps. d \<notin> docid ` set (tp_postings tp) \<Longrightarrow>
     (\<Sum>tp\<leftarrow>tps. \<Sum>p\<leftarrow>filter (\<lambda>p. docid p = d) (tp_postings tp). g tp p) = (0::real)"
  by (induction tps) (simp_all add: filter_docid_Nil[THEN iffD2])

lemma score_terms_sum:
  "score_terms self doc_count tps acc = Inr acc' \<Longrightarrow>
     map_of acc' d =
       (if \<exists>tp\<in>set tps. d \<in> docid ` set (tp_postings tp)
        then Some (acc_val acc d +
               (\<Sum>tp\<leftarrow>tps. \<Sum>p\<leftarrow>filter (\<lambda>p. docid p = d) (tp_postings tp).
                  score_term (log 2 (real_of_int doc_count / real (length (tp_postings tp))))
                    (bm_k1 self) (bm_b self) (real (length (positions p)))
                    (real_of_int (get_doclength (bm_index self) (docid p)))
                    (avg_doclength (bm_index self))))
        else map_of acc d)"
proof (induction tps arbitrary: acc)
  case Nil
  then show ?case by simp
next
  case (Cons tp tps)
  from Cons.prems obtain idf acc1 where
    i: "idf_of doc_count (tp_postings tp) = Inr idf" and
    p: "score_postings self idf (tp_postings tp) acc = Inr acc1" and
    rest: "score_terms self doc_count tps acc1 = Inr acc'"
    by (auto split: sum.splits)
  have inner: "(\<Sum>p\<leftarrow>filter (\<lambda>p. docid p = d) (tp_postings tp).
                  score_term idf (bm_k1 self) (bm_b self) (real (length (positions p)))
                    (real_of_int (get_doclength (bm_index self) (docid p)))
                    (avg_doclength (bm_index self))) =
               (\<Sum>p\<leftarrow>filter (\<lambda>p. docid p = d) (tp_postings tp).
                  score_term (log 2 (real_of_int doc_count / real (length (tp_postings tp))))
                    (bm_k1 self) (bm_b self) (real (length (positions p)))
                    (real_of_int (get_doclength (bm_index self) (docid p)))
                    (avg_doclength (bm_index self)))"
  proof (cases "tp_postings tp = []")
    case True
    then show ?thesis by simp
  next
    case False
    from idf_of_log[OF i False] show ?thesis by simp
  qed
  show ?case
    unfolding Cons.IH[OF rest] score_postings_sum[OF p] inner
    by (auto simp: filter_docid_Nil[THEN iffD2] sum_without_docid)
qed

lemma distinct_score_terms:
  "score_terms self doc_count tps acc = Inr acc' \<Longrightarrow> distinct (map fst acc) \<Longrightarrow> distinct (map fst acc')"
  by (induction tps arbitrary: acc) (auto dest: distinct_score_postings split: sum.splits)

lemma search_scored_sum:
  assumes "search_scored self tps = Inr acc"
  shows "map_of acc d =
       (if \<exists>tp\<in>set tps. d \<in> docid ` set (tp_postings tp)
        then Some (\<Sum>tp\<leftarrow>tps. \<Sum>p\<leftarrow>filter (\<lambda>p. docid p = d) (tp_postings tp).
                  score_term (log 2 (real_of_int (get_doc_count (bm_index self))
                                       / real (length (tp_postings tp))))
                    (bm_k1 self) (bm_b self) (real (length (positions p)))
                    (real_of_int (get_doclength (bm_index self) (docid p)))
                    (avg_doclength (bm_index self)))
        else None)"
    and "distinct (map fst acc)"
  using score_terms_sum[of self _ tps "[]" acc d] distinct_score_terms[of self _ tps "[]" acc] assms
  by (simp_all add: search_scored_def)

lemma map_of_sort_key:
  assumes "distinct (map fst xs)"
  shows "map_of (sort_key f xs) = map_of xs"
proof -
  have "distinct (map fst (sort_key f xs))"
    using assms by (simp add: distinct_map)
  moreover have "set (sort_key f xs) = set xs" by simp
  ultimately show ?thesis
    using assms by (simp add: map_of_inject_set)
qed

lemma evaluate_bm25_scores:
  assumes "fst (evaluate_bm25 self h) = Inr res"
  shows "map_of (ranked_results res) d =
       (if \<exists>a\<in>set (List.map_filter (get_postings (bm_index self)) (bm_query self)).
             d \<in> docid ` set (tp_postings (h a))
        then Some (\<Sum>a\<leftarrow>List.map_filter (get_postings (bm_index self)) (bm_query self).
                   \<Sum>p\<leftarrow>filter (\<lambda>p. docid p = d) (tp_postings (h a)).
                  score_term (log 2 (real_of_int (get_doc_count (bm_index self))
                                       / real (length (tp_postings (h a)))))
                    (bm_k1 self) (bm_b self) (real (length (positions p)))
                    (real_of_int (get_doclength (bm_index self) (docid p)))
                    (avg_doclength (bm_index self)))
        else None)"
proof -
  obtain refs h1 where c: "collect_postings (bm_index self) (bm_query self) [] h = (refs, h1)"
    by (cases "collect_postings (bm_index self) (bm_query self) [] h")
  from assms c obtain acc where
    s: "search_scored self (map h1 refs) = Inr acc" and
    r: "res = build_result (map h1 refs) acc"
    by (auto simp: evaluate_bm25_def Let_def split: sum.splits)
  have refs: "refs = List.map_filter (get_postings (bm_index self)) (bm_query self)"
    using collect_postings_refs[of "bm_index self" "bm_query self" "[]" h] c by simp
  have post: "tp_postings (h1 a) = tp_postings (h a)" for a
    using collect_postings_frame[OF c] by blast
  have "map_of (ranked_results res) = map_of acc"
    using search_scored_sum(2)[OF s] r by (simp add: build_result_def map_of_sort_key)
  then show ?thesis
    unfolding search_scored_sum(1)[OF s] refs[symmetric]
    by (simp add: comp_def post)
qed

text \<open>
  The scoring returns (raises neither \<open>ZeroDivisionError\<close> nor \<open>ValueError\<close>) for the usual
  parameters: a positive average length and document count, \<open>k1 \<ge> 0\<close>, \<open>0 \<le> b \<le> 1\<close>, and
  postings with at least one position and a non-negative document length.
\<close>

lemma compute_bm25_term_returns:
  assumes "0 < avg_doclength (bm_index self)" "0 \<le> bm_k1 self" "0 \<le> bm_b self" "bm_b self \<le> 1"
    and "0 < tf" "0 \<le> dl"
  shows "\<exists>s. compute_bm25_term self idf tf dl = Inr s"
proof -
  have "0 \<le> bm_b self * (real_of_int dl / avg_doclength (bm_index self))"
    using assms by simp
  then have "0 \<le> bm_k1 self * ((1 - bm_b self) + bm_b self * (real_of_int dl / avg_doclength (bm_index self)))"
    using assms by simp
  then have "0 < bm_k1 self * ((1 - bm_b self) + bm_b self * (real_of_int dl / avg_doclength (bm_index self))) + real tf"
    using assms(5) by linarith
  then show ?thesis
    using assms(1) by (simp add: compute_bm25_term_def Let_def)
qed

lemma score_postings_returns:
  assumes "0 < avg_doclength (bm_index self)" "0 \<le> bm_k1 self" "0 \<le> bm_b self" "bm_b self \<le> 1"
    and "\<forall>p\<in>set ps. positions p \<noteq> [] \<and> 0 \<le> get_doclength (bm_index self) (docid p)"
  shows "\<exists>acc'. score_postings self idf ps acc = Inr acc'"
  using assms(5)
proof (induction ps arbitrary: acc)
  case Nil
  then show ?case by simp
next
  case (Cons p ps)
  then have "0 < length (positions p)" "0 \<le> get_doclength (bm_index self) (docid p)" by simp_all
  from compute_bm25_term_returns[OF assms(1-4) this, of idf] obtain s where
    "compute_bm25_term self idf (length (positions p)) (get_doclength (bm_index self) (docid p)) = Inr s"
    by blast
  with Cons show ?case by (simp add: Let_def)
qed

lemma search_scored_returns:
  assumes "0 < avg_doclength (bm_index self)" "0 \<le> bm_k1 self" "0 \<le> bm_b self" "bm_b self \<le> 1"
    and "0 < get_doc_count (bm_index self)"
    and "\<forall>tp\<in>set tps. \<forall>p\<in>set (tp_postings tp).
           positions p \<noteq> [] \<and> 0 \<le> get_doclength (bm_index self) (docid p)"
  shows "\<exists>acc. search_scored self tps = Inr acc"
proof -
  have "\<exists>acc'. score_terms self (get_doc_count (bm_index self)) tps acc = Inr acc'" for acc
    using assms(6)
  proof (induction tps arbitrary: acc)
    case Nil
    then show ?case by simp
  next
    case (Cons tp tps)
    have "\<exists>idf. idf_of (get_doc_count (bm_index self)) (tp_postings tp) = Inr idf"
    proof (cases "tp_postings tp = []")
      case True
      then show ?thesis by (simp add: idf_of_def)
    next
      case False
      then have "0 < real (length (tp_postings tp))" by simp
      with assms(5) have "0 < real_of_int (get_doc_count (bm_index self)) / real (length (tp_postings tp))"
        by simp
      with False show ?thesis by (simp add: idf_of_def Let_def not_le)
    qed
    then obtain idf where i: "idf_of (get_doc_count (bm_index self)) (tp_postings tp) = Inr idf" ..
    from Cons.prems have "\<forall>p\<in>set (tp_postings tp).
           positions p \<noteq> [] \<and> 0 \<le> get_doclength (bm_index self) (docid p)" by simp
    from score_postings_returns[OF assms(1-4) this, of idf acc] obtain acc1 where
      p: "score_postings self idf (tp_postings tp) acc = Inr acc1" ..
    from Cons.IH[of acc1] Cons.prems obtain acc' where
      "score_terms self (get_doc_count (bm_index self)) tps acc1 = Inr acc'" by auto
    with i p show ?case by simp
  qed
  then show ?thesis by (simp add: search_scored_def)
qed

section \<open>Claims\<close>

text \<open>
  C10. \<open>EvaluationResult.get_postings(term)\<close> returns \<open>None\<close> for every term and every state
  of the result, whether the term is a key of \<open>postings_map\<close> or not: it never hands out the
  recorded postings nor an empty list.
\<close>

theorem get_postings_always_None:
  "EvaluationResult_get_postings self t = None"
  by (simp add: EvaluationResult_get_postings_def)

text \<open>
  C3. The query \<open>a AND\<close> (trailing operator): after \<open>AND\<close> is ingested, \<open>_term\<close> is entered
  with the cursor on the end-of-input token, none of its three branches applies, and
  \<open>return node\<close> raises \<open>UnboundLocalError\<close> instead of the parser's own exception; no
  \<open>_ingest\<close> is reached with a mismatching token.
\<close>

theorem parse_trailing_operator_UnboundLocalError:
  "parse_query [''a'', ''AND''] =
     Some (Inl (UnboundLocalError ''local variable 'node' referenced before assignment''))"
  by (simp add: parse_query_def Parser_init_def lex_one_def parse_def ingest_def eval_nat_numeral)

text \<open>
  C1. An AND node whose children both return: with both children absent (\<open>None\<close>) the node is
  absent; with exactly one child absent the node returns the other child's postings
  unchanged; only with two present lists is \<open>intersect\<close> applied. In particular the query
  \<open>x AND y\<close>, with \<open>x\<close> not indexed and \<open>y\<close> indexed, answers with exactly the postings of \<open>y\<close>.
\<close>

theorem and_absent_identity:
  "(tok_type op = AND \<and> visit idx l er = Inr (lp, er') \<and> visit idx r er' = Inr (rp, er'') \<longrightarrow>
      (lp = None \<and> rp = None \<longrightarrow> visit idx (BinOp l op r) er = Inr (None, er'')) \<and>
      (lp = None \<and> rp \<noteq> None \<longrightarrow> visit idx (BinOp l op r) er = Inr (rp, er'')) \<and>
      (lp \<noteq> None \<and> rp = None \<longrightarrow> visit idx (BinOp l op r) er = Inr (lp, er'')) \<and>
      (\<forall>a b. lp = Some a \<and> rp = Some b \<longrightarrow>
          visit idx (BinOp l op r) er = Inr (Some (intersect a b), er''))) \<and>
   (tok_type (lex_one x) = TERM_T \<and> tok_type (lex_one y) = TERM_T \<and>
    get_postings idx x = None \<and> get_postings idx y = Some ps \<longrightarrow>
      (\<exists>res. evaluate_query [x, ''AND'', y] idx = Some (Inr res) \<and> query_result res = Some ps))"
proof (intro conjI impI)
  assume h: "tok_type (lex_one x) = TERM_T \<and> tok_type (lex_one y) = TERM_T \<and>
    get_postings idx x = None \<and> get_postings idx y = Some ps"
  then show "\<exists>res. evaluate_query [x, ''AND'', y] idx = Some (Inr res) \<and> query_result res = Some ps"
    by (simp add: evaluate_query_via_parse parse_x_AND_y visit_term_def update_results_def)
qed (auto split: option.splits)

theorem and_absent_identity_witness:
  "tok_type (Token ''AND'' AND) = AND \<and>
   visit (index_of [(''y'', [5, 6])]) (Term (Token ''x'' TERM_T)) EvaluationResult_init =
     Inr (None, add_postings EvaluationResult_init ''x'' []) \<and>
   visit (index_of [(''y'', [5, 6])]) (Term (Token ''y'' TERM_T))
       (add_postings EvaluationResult_init ''x'' []) =
     Inr (Some [\<lparr>docid = 5, positions = [0]\<rparr>, \<lparr>docid = 6, positions = [0]\<rparr>],
          add_postings (add_postings EvaluationResult_init ''x'' []) ''y''
            [\<lparr>docid = 5, positions = [0]\<rparr>, \<lparr>docid = 6, positions = [0]\<rparr>]) \<and>
   visit (index_of [(''y'', [5, 6])])
       (BinOp (Term (Token ''x'' TERM_T)) (Token ''AND'' AND) (Term (Token ''y'' TERM_T)))
       EvaluationResult_init =
     Inr (Some [\<lparr>docid = 5, positions = [0]\<rparr>, \<lparr>docid = 6, positions = [0]\<rparr>],
          add_postings (add_postings EvaluationResult_init ''x'' []) ''y''
            [\<lparr>docid = 5, positions = [0]\<rparr>, \<lparr>docid = 6, positions = [0]\<rparr>]) \<and>
   tok_type (lex_one ''x'') = TERM_T \<and> tok_type (lex_one ''y'') = TERM_T \<and>
   get_postings (index_of [(''y'', [5, 6])]) ''x'' = None \<and>
   get_postings (index_of [(''y'', [5, 6])]) ''y'' =
     Some [\<lparr>docid = 5, positions = [0]\<rparr>, \<lparr>docid = 6, positions = [0]\<rparr>] \<and>
   (\<exists>res. evaluate_query [''x'', ''AND'', ''y''] (index_of [(''y'', [5, 6])]) = Some (Inr res) \<and>
      query_result res = Some [\<lparr>docid = 5, positions = [0]\<rparr>, \<lparr>docid = 6, positions = [0]\<rparr>])"
proof -
  let ?I = "index_of [(''y'', [5, 6])]"
  let ?P = "[\<lparr>docid = 5, positions = [0]\<rparr>, \<lparr>docid = 6, positions = [0]\<rparr>]"
  let ?E1 = "add_postings EvaluationResult_init ''x'' []"
  let ?E2 = "add_postings ?E1 ''y'' ?P"
  have g: "get_postings ?I ''x'' = None" "get_postings ?I ''y'' = Some ?P"
    by (simp_all add: index_of_def)
  have l: "tok_type (lex_one ''x'') = TERM_T" "tok_type (lex_one ''y'') = TERM_T"
    by (simp_all add: lex_one_def)
  have h1: "visit ?I (Term (Token ''x'' TERM_T)) EvaluationResult_init = Inr (None, ?E1)"
    by (simp add: visit_term_def g)
  have h2: "visit ?I (Term (Token ''y'' TERM_T)) ?E1 = Inr (Some ?P, ?E2)"
    by (simp add: visit_term_def g)
  from and_absent_identity[where op = "Token ''AND'' AND" and idx = ?I
      and l = "Term (Token ''x'' TERM_T)" and r = "Term (Token ''y'' TERM_T)"
      and er = EvaluationResult_init and lp = None and er' = ?E1 and rp = "Some ?P" and er'' = ?E2
      and x = "''x''" and y = "''y''" and ps = ?P]
  have "visit ?I (BinOp (Term (Token ''x'' TERM_T)) (Token ''AND'' AND) (Term (Token ''y'' TERM_T)))
          EvaluationResult_init = Inr (Some ?P, ?E2)"
    and "\<exists>res. evaluate_query [''x'', ''AND'', ''y''] ?I = Some (Inr res) \<and> query_result res = Some ?P"
    using h1 h2 g l by simp_all
  with h1 h2 g l show ?thesis by simp
qed

text \<open>
  C8. An OR node whose children both return never fails, and an absent child counts as the
  empty list: with one child absent the node returns the union of the other child's
  postings with the empty list, which is that child's list.
\<close>

theorem or_absent_is_empty:
  "tok_type op = OR \<and> visit idx l er = Inr (lp, er') \<and> visit idx r er' = Inr (rp, er'') \<longrightarrow>
     (\<forall>b. lp = None \<and> rp = Some b \<longrightarrow>
        visit idx (BinOp l op r) er = Inr (Some (union_merge [] b), er'') \<and> union_merge [] b = b) \<and>
     (\<forall>a. lp = Some a \<and> rp = None \<longrightarrow>
        visit idx (BinOp l op r) er = Inr (Some (union_merge a []), er'') \<and> union_merge a [] = a) \<and>
     (lp = None \<and> rp = None \<longrightarrow> visit idx (BinOp l op r) er = Inr (Some [], er''))"
  by (auto simp: union_def union_merge_Nil2)

theorem or_absent_is_empty_witness:
  "tok_type (Token ''OR'' OR) = OR \<and>
   visit (index_of [(''y'', [5, 6])]) (Term (Token ''x'' TERM_T)) EvaluationResult_init =
     Inr (None, add_postings EvaluationResult_init ''x'' []) \<and>
   visit (index_of [(''y'', [5, 6])]) (Term (Token ''y'' TERM_T))
       (add_postings EvaluationResult_init ''x'' []) =
     Inr (Some [\<lparr>docid = 5, positions = [0]\<rparr>, \<lparr>docid = 6, positions = [0]\<rparr>],
          add_postings (add_postings EvaluationResult_init ''x'' []) ''y''
            [\<lparr>docid = 5, positions = [0]\<rparr>, \<lparr>docid = 6, positions = [0]\<rparr>]) \<and>
   visit (index_of [(''y'', [5, 6])])
       (BinOp (Term (Token ''x'' TERM_T)) (Token ''OR'' OR) (Term (Token ''y'' TERM_T)))
       EvaluationResult_init =
     Inr (Some [\<lparr>docid = 5, positions = [0]\<rparr>, \<lparr>docid = 6, positions = [0]\<rparr>],
          add_postings (add_postings EvaluationResult_init ''x'' []) ''y''
            [\<lparr>docid = 5, positions = [0]\<rparr>, \<lparr>docid = 6, positions = [0]\<rparr>])"
proof -
  let ?I = "index_of [(''y'', [5, 6])]"
  let ?P = "[\<lparr>docid = 5, positions = [0]\<rparr>, \<lparr>docid = 6, positions = [0]\<rparr>]"
  let ?E1 = "add_postings EvaluationResult_init ''x'' []"
  let ?E2 = "add_postings ?E1 ''y'' ?P"
  have g: "get_postings ?I ''x'' = None" "get_postings ?I ''y'' = Some ?P"
    by (simp_all add: index_of_def)
  have h1: "visit ?I (Term (Token ''x'' TERM_T)) EvaluationResult_init = Inr (None, ?E1)"
    by (simp add: visit_term_def g)
  have h2: "visit ?I (Term (Token ''y'' TERM_T)) ?E1 = Inr (Some ?P, ?E2)"
    by (simp add: visit_term_def g)
  from or_absent_is_empty[where op = "Token ''OR'' OR" and idx = ?I
      and l = "Term (Token ''x'' TERM_T)" and r = "Term (Token ''y'' TERM_T)"
      and er = EvaluationResult_init and lp = None and er' = ?E1 and rp = "Some ?P" and er'' = ?E2]
  have "visit ?I (BinOp (Term (Token ''x'' TERM_T)) (Token ''OR'' OR) (Term (Token ''y'' TERM_T)))
          EvaluationResult_init = Inr (Some ?P, ?E2)"
    using h1 h2 by simp
  with h1 h2 show ?thesis by simp
qed

text \<open>
  C2. AND binds tighter than OR and parentheses override: for terms \<open>a\<close>, \<open>b\<close>, \<open>c\<close> the query
  \<open>a OR b AND c\<close> parses to \<open>BinOp a OR (BinOp b AND c)\<close> and \<open>(a OR b) AND c\<close> to
  \<open>BinOp (BinOp a OR b) AND c\<close>; over an index where \<open>a\<close> matches document 1 and \<open>b\<close>, \<open>c\<close> match
  document 2, the first query yields documents 1 and 2 and the second document 2.
\<close>

theorem and_binds_tighter_than_or:
  "tok_type (lex_one a) = TERM_T \<and> tok_type (lex_one b) = TERM_T \<and> tok_type (lex_one c) = TERM_T \<longrightarrow>
     parse_query [a, ''OR'', b, ''AND'', c] =
       Some (Inr (BinOp (Term (Token a TERM_T)) (Token ''OR'' OR)
                    (BinOp (Term (Token b TERM_T)) (Token ''AND'' AND) (Term (Token c TERM_T))))) \<and>
     parse_query [''('', a, ''OR'', b, '')'', ''AND'', c] =
       Some (Inr (BinOp (BinOp (Term (Token a TERM_T)) (Token ''OR'' OR) (Term (Token b TERM_T)))
                    (Token ''AND'' AND) (Term (Token c TERM_T)))) \<and>
     (get_postings idx a = Some pa \<and> map docid pa = [1] \<and>
        get_postings idx b = Some pb \<and> map docid pb = [2] \<and>
        get_postings idx c = Some pc \<and> map docid pc = [2] \<longrightarrow>
        (\<exists>res q. evaluate_query [a, ''OR'', b, ''AND'', c] idx = Some (Inr res) \<and>
                 query_result res = Some q \<and> map docid q = [1, 2]) \<and>
        (\<exists>res q. evaluate_query [''('', a, ''OR'', b, '')'', ''AND'', c] idx = Some (Inr res) \<and>
                 query_result res = Some q \<and> map docid q = [2]))"
proof (intro impI conjI)
  assume t: "tok_type (lex_one a) = TERM_T \<and> tok_type (lex_one b) = TERM_T \<and> tok_type (lex_one c) = TERM_T"
  then show "parse_query [a, ''OR'', b, ''AND'', c] =
       Some (Inr (BinOp (Term (Token a TERM_T)) (Token ''OR'' OR)
                    (BinOp (Term (Token b TERM_T)) (Token ''AND'' AND) (Term (Token c TERM_T)))))"
    by (simp add: parse_a_OR_b_AND_c)
  from t show "parse_query [''('', a, ''OR'', b, '')'', ''AND'', c] =
       Some (Inr (BinOp (BinOp (Term (Token a TERM_T)) (Token ''OR'' OR) (Term (Token b TERM_T)))
                    (Token ''AND'' AND) (Term (Token c TERM_T))))"
    by (simp add: parse_paren)
  assume h: "get_postings idx a = Some pa \<and> map docid pa = [1] \<and>
        get_postings idx b = Some pb \<and> map docid pb = [2] \<and>
        get_postings idx c = Some pc \<and> map docid pc = [2]"
  then obtain p1 p2 p3 where ps: "pa = [p1]" "docid p1 = 1" "pb = [p2]" "docid p2 = 2" "pc = [p3]" "docid p3 = 2"
    by (metis docid_singleton)
  from t h ps show "\<exists>res q. evaluate_query [a, ''OR'', b, ''AND'', c] idx = Some (Inr res) \<and>
                 query_result res = Some q \<and> map docid q = [1, 2]"
    by (simp add: evaluate_query_via_parse parse_a_OR_b_AND_c visit_term_def update_results_def union_def)
  from t h ps show "\<exists>res q. evaluate_query [''('', a, ''OR'', b, '')'', ''AND'', c] idx = Some (Inr res) \<and>
                 query_result res = Some q \<and> map docid q = [2]"
    by (simp add: evaluate_query_via_parse parse_paren visit_term_def update_results_def union_def)
qed

theorem and_binds_tighter_than_or_witness:
  "tok_type (lex_one ''a'') = TERM_T \<and> tok_type (lex_one ''b'') = TERM_T \<and>
   tok_type (lex_one ''c'') = TERM_T \<and>
   map docid [\<lparr>docid = 1, positions = [0]\<rparr>] = [1] \<and>
   map docid [\<lparr>docid = 2, positions = [0]\<rparr>] = [2] \<and>
   get_postings (index_of [(''a'', [1]), (''b'', [2]), (''c'', [2])]) ''a'' =
     Some [\<lparr>docid = 1, positions = [0]\<rparr>] \<and>
   get_postings (index_of [(''a'', [1]), (''b'', [2]), (''c'', [2])]) ''b'' =
     Some [\<lparr>docid = 2, positions = [0]\<rparr>] \<and>
   get_postings (index_of [(''a'', [1]), (''b'', [2]), (''c'', [2])]) ''c'' =
     Some [\<lparr>docid = 2, positions = [0]\<rparr>] \<and>
   parse_query [''a'', ''OR'', ''b'', ''AND'', ''c''] =
     Some (Inr (BinOp (Term (Token ''a'' TERM_T)) (Token ''OR'' OR)
                  (BinOp (Term (Token ''b'' TERM_T)) (Token ''AND'' AND) (Term (Token ''c'' TERM_T))))) \<and>
   (\<exists>res q. evaluate_query [''a'', ''OR'', ''b'', ''AND'', ''c'']
                (index_of [(''a'', [1]), (''b'', [2]), (''c'', [2])]) = Some (Inr res) \<and>
            query_result res = Some q \<and> map docid q = [1, 2]) \<and>
   (\<exists>res q. evaluate_query [''('', ''a'', ''OR'', ''b'', '')'', ''AND'', ''c'']
                (index_of [(''a'', [1]), (''b'', [2]), (''c'', [2])]) = Some (Inr res) \<and>
            query_result res = Some q \<and> map docid q = [2])"
proof -
  let ?I = "index_of [(''a'', [1]), (''b'', [2]), (''c'', [2])]"
  have l: "tok_type (lex_one ''a'') = TERM_T \<and> tok_type (lex_one ''b'') = TERM_T \<and>
           tok_type (lex_one ''c'') = TERM_T"
    by (simp add: lex_one_def)
  have g: "get_postings ?I ''a'' = Some [\<lparr>docid = 1, positions = [0]\<rparr>] \<and>
           map docid [\<lparr>docid = 1, positions = [0]\<rparr>] = [1] \<and>
           get_postings ?I ''b'' = Some [\<lparr>docid = 2, positions = [0]\<rparr>] \<and>
           map docid [\<lparr>docid = 2, positions = [0]\<rparr>] = [2] \<and>
           get_postings ?I ''c'' = Some [\<lparr>docid = 2, positions = [0]\<rparr>] \<and>
           map docid [\<lparr>docid = 2, positions = [0]\<rparr>] = [2]"
    by (simp add: index_of_def)
  from and_binds_tighter_than_or[where a = "''a''" and b = "''b''" and c = "''c''" and idx = ?I
      and pa = "[\<lparr>docid = 1, positions = [0]\<rparr>]" and pb = "[\<lparr>docid = 2, positions = [0]\<rparr>]"
      and pc = "[\<lparr>docid = 2, positions = [0]\<rparr>]"] l g
  show ?thesis by blast
qed

text \<open>
  C5 (as the code has it). \<open>add_postings term postings\<close> stores the postings under the term
  and appends the term to the list of every docid once per posting of that docid,
  whether or not the term is already in that list.
\<close>

theorem add_postings_appends_unconditionally:
  "term_map (add_postings self t ps) d =
     (if d \<in> docid ` set ps
      then Some (get_terms self d @ replicate (length (filter (\<lambda>p. docid p = d) ps)) t)
      else term_map self d) \<and>
   postings_map (add_postings self t ps) = (postings_map self)(t \<mapsto> ps)"
  by (auto simp: add_postings_def foldl_add_term_apply get_terms_def dom_def split: option.splits)

text \<open>
  C5 as stated fails: registering the same term twice for document 1 leaves the term
  twice in the document's list.
\<close>

theorem add_postings_duplicate_counterexample:
  "\<not> distinct (get_terms
       (add_postings (add_postings EvaluationResult_init ''x'' [\<lparr>docid = 1, positions = [0]\<rparr>])
          ''x'' [\<lparr>docid = 1, positions = [0]\<rparr>]) 1)"
  by (simp add: add_postings_def add_term_def get_terms_def EvaluationResult_init_def)

text \<open>
  C6. After a boolean evaluation that returns, the terms recorded for a docid are exactly
  the terms of the query whose postings contain that docid, whatever the final answer
  is. For \<open>x AND y\<close> with \<open>x\<close> in documents 1, 3 and \<open>y\<close> in documents 3, 5: document 3 has
  \<open>[x, y]\<close>, documents 1 and 5 have their term too, and the answer is document 3 alone.
\<close>

theorem terms_by_doc_records_every_visited_term:
  "(evaluate_query tokens idx = Some (Inr res) \<longrightarrow>
      (\<exists>tree. parse_query tokens = Some (Inr tree) \<and>
         (\<forall>d. set (get_terms res d) =
               {t \<in> set (terms_of tree). \<exists>ps. get_postings idx t = Some ps \<and> d \<in> docid ` set ps}))) \<and>
   (tok_type (lex_one x) = TERM_T \<and> tok_type (lex_one y) = TERM_T \<and>
    get_postings idx x = Some px \<and> map docid px = [1, 3] \<and>
    get_postings idx y = Some py \<and> map docid py = [3, 5] \<longrightarrow>
      (\<exists>r q. evaluate_query [x, ''AND'', y] idx = Some (Inr r) \<and>
         get_terms r 3 = [x, y] \<and> get_terms r 1 = [x] \<and> get_terms r 5 = [y] \<and>
         query_result r = Some q \<and> map docid q = [3]))"
proof (intro conjI impI)
  assume "evaluate_query tokens idx = Some (Inr res)"
  then show "\<exists>tree. parse_query tokens = Some (Inr tree) \<and>
         (\<forall>d. set (get_terms res d) =
               {t \<in> set (terms_of tree). \<exists>ps. get_postings idx t = Some ps \<and> d \<in> docid ` set ps})"
    by (rule evaluate_query_terms)
next
  assume h: "tok_type (lex_one x) = TERM_T \<and> tok_type (lex_one y) = TERM_T \<and>
    get_postings idx x = Some px \<and> map docid px = [1, 3] \<and>
    get_postings idx y = Some py \<and> map docid py = [3, 5]"
  then obtain p1 p3 q3 q5 where ps: "px = [p1, p3]" "docid p1 = 1" "docid p3 = 3"
      "py = [q3, q5]" "docid q3 = 3" "docid q5 = 5"
    by (metis docid_pair)
  from h ps have ne: "x \<noteq> y" by auto
  from h ps ne show "\<exists>r q. evaluate_query [x, ''AND'', y] idx = Some (Inr r) \<and>
         get_terms r 3 = [x, y] \<and> get_terms r 1 = [x] \<and> get_terms r 5 = [y] \<and>
         query_result r = Some q \<and> map docid q = [3]"
    by (simp add: evaluate_query_via_parse parse_x_AND_y visit_term_def update_results_def
        add_postings_def add_term_def get_terms_def EvaluationResult_init_def Let_def)
qed

theorem terms_by_doc_records_every_visited_term_witness:
  "evaluate_query [''x'', ''AND'', ''y''] (index_of [(''x'', [1, 3]), (''y'', [3, 5])]) \<noteq> None \<and>
   tok_type (lex_one ''x'') = TERM_T \<and> tok_type (lex_one ''y'') = TERM_T \<and>
   get_postings (index_of [(''x'', [1, 3]), (''y'', [3, 5])]) ''x'' =
     Some [\<lparr>docid = 1, positions = [0]\<rparr>, \<lparr>docid = 3, positions = [0]\<rparr>] \<and>
   get_postings (index_of [(''x'', [1, 3]), (''y'', [3, 5])]) ''y'' =
     Some [\<lparr>docid = 3, positions = [0]\<rparr>, \<lparr>docid = 5, positions = [0]\<rparr>] \<and>
   (\<exists>r q. evaluate_query [''x'', ''AND'', ''y''] (index_of [(''x'', [1, 3]), (''y'', [3, 5])]) =
             Some (Inr r) \<and>
      (\<exists>tree. parse_query [''x'', ''AND'', ''y''] = Some (Inr tree) \<and>
         (\<forall>d. set (get_terms r d) =
               {t \<in> set (terms_of tree).
                  \<exists>ps. get_postings (index_of [(''x'', [1, 3]), (''y'', [3, 5])]) t = Some ps \<and>
                       d \<in> docid ` set ps})) \<and>
      get_terms r 3 = [''x'', ''y''] \<and> get_terms r 1 = [''x''] \<and> get_terms r 5 = [''y''] \<and>
      query_result r = Some q \<and> map docid q = [3])"
proof -
  let ?I = "index_of [(''x'', [1, 3]), (''y'', [3, 5])]"
  let ?px = "[\<lparr>docid = 1, positions = [0]\<rparr>, \<lparr>docid = 3, positions = [0]\<rparr>]"
  let ?py = "[\<lparr>docid = 3, positions = [0]\<rparr>, \<lparr>docid = 5, positions = [0]\<rparr>]"
  have l: "tok_type (lex_one ''x'') = TERM_T \<and> tok_type (lex_one ''y'') = TERM_T"
    by (simp add: lex_one_def)
  have g: "get_postings ?I ''x'' = Some ?px \<and> map docid ?px = [1, 3] \<and>
           get_postings ?I ''y'' = Some ?py \<and> map docid ?py = [3, 5]"
    by (simp add: index_of_def)
  note inst = terms_by_doc_records_every_visited_term[where idx = ?I and x = "''x''" and y = "''y''"
      and px = ?px and py = ?py and tokens = "[''x'', ''AND'', ''y'']"]
  from inst[where res = EvaluationResult_init] l g
  have "\<exists>r q. evaluate_query [''x'', ''AND'', ''y''] ?I = Some (Inr r) \<and>
         get_terms r 3 = [''x'', ''y''] \<and> get_terms r 1 = [''x''] \<and> get_terms r 5 = [''y''] \<and>
         query_result r = Some q \<and> map docid q = [3]"
    by blast
  then obtain r q where
    r: "evaluate_query [''x'', ''AND'', ''y''] ?I = Some (Inr r)"
       "get_terms r 3 = [''x'', ''y'']" "get_terms r 1 = [''x'']" "get_terms r 5 = [''y'']"
       "query_result r = Some q" "map docid q = [3]"
    by auto
  from inst[where res = r] r(1) have
    "\<exists>tree. parse_query [''x'', ''AND'', ''y''] = Some (Inr tree) \<and>
         (\<forall>d. set (get_terms r d) =
               {t \<in> set (terms_of tree). \<exists>ps. get_postings ?I t = Some ps \<and> d \<in> docid ` set ps})"
    by blast
  with r l g show ?thesis by auto
qed

text \<open>
  C7. The pairs handed to the aggregator by a ranked evaluation are in descending order of
  score: of two entries, the one with the strictly greater score comes first. The
  sequence has the entries of the scored dictionary, and for the scores
  \<open>{1: 0.5, 2: 0.9, 3: 0.9}\<close> it is documents 2, 3, 1.
\<close>

theorem ranked_results_sorted_descending:
  "(fst (evaluate_bm25 self h) = Inr res \<longrightarrow>
      (\<forall>i j. i < length (ranked_results res) \<and> j < length (ranked_results res) \<and>
             snd (ranked_results res ! j) < snd (ranked_results res ! i) \<longrightarrow> i < j)) \<and>
   (\<forall>i j. i < length (ranked_results (build_result tps scored)) \<and>
          j < length (ranked_results (build_result tps scored)) \<and>
          snd (ranked_results (build_result tps scored) ! j)
            < snd (ranked_results (build_result tps scored) ! i) \<longrightarrow> i < j) \<and>
   set (ranked_results (build_result tps scored)) = set scored \<and>
   length (ranked_results (build_result tps scored)) = length scored \<and>
   ranked_results (build_result tps [(1, 1 / 2), (2, 9 / 10), (3, 9 / 10)]) =
     [(2, 9 / 10), (3, 9 / 10), (1, 1 / 2)]"
proof (intro conjI impI allI)
  fix i j
  assume r: "fst (evaluate_bm25 self h) = Inr res"
    and ij: "i < length (ranked_results res) \<and> j < length (ranked_results res) \<and>
             snd (ranked_results res ! j) < snd (ranked_results res ! i)"
  from r obtain tl sc where "res = build_result tl sc"
    by (auto simp: evaluate_bm25_def Let_def split: prod.splits sum.splits)
  then have "ranked_results res = sort_key (\<lambda>item. - snd item) sc"
    by (simp add: build_result_def)
  from ranked_descending[OF this] ij show "i < j" by blast
next
  fix i j
  assume ij: "i < length (ranked_results (build_result tps scored)) \<and>
          j < length (ranked_results (build_result tps scored)) \<and>
          snd (ranked_results (build_result tps scored) ! j)
            < snd (ranked_results (build_result tps scored) ! i)"
  have "ranked_results (build_result tps scored) = sort_key (\<lambda>item. - snd item) scored"
    by (simp add: build_result_def)
  from ranked_descending[OF this] ij show "i < j" by blast
qed (simp_all add: build_result_def)

theorem ranked_results_sorted_descending_witness:
  "fst (evaluate_bm25 (oil_search [''Oil'', ''gas'', ''coal'']) oil_store) =
     Inr \<lparr>added_postings =
             [(''Oil'', [\<lparr>docid = 2, positions = [0]\<rparr>]),
              (''gas'', [\<lparr>docid = 1, positions = [0]\<rparr>, \<lparr>docid = 2, positions = [3]\<rparr>])],
           ranked_results = [(2, 1), (1, 0)]\<rparr> \<and>
   (0::nat) < length [(2::int, 1::real), (1, 0)] \<and> (1::nat) < length [(2::int, 1::real), (1, 0)] \<and>
   snd ([(2::int, 1::real), (1, 0)] ! 1) < snd ([(2::int, 1::real), (1, 0)] ! 0) \<and>
   (0::nat) < 1"
proof -
  let ?res = "\<lparr>added_postings =
             [(''Oil'', [\<lparr>docid = 2, positions = [0]\<rparr>]),
              (''gas'', [\<lparr>docid = 1, positions = [0]\<rparr>, \<lparr>docid = 2, positions = [3]\<rparr>])],
           ranked_results = [(2::int, 1::real), (1, 0)]\<rparr>"
  have r: "fst (evaluate_bm25 (oil_search [''Oil'', ''gas'', ''coal'']) oil_store) = Inr ?res"
    by (simp add: oil_run)
  from ranked_results_sorted_descending[where self = "oil_search [''Oil'', ''gas'', ''coal'']"
      and h = oil_store and res = ?res and tps = "[]" and scored = "[]"] r
  have "\<forall>i j. i < length (ranked_results ?res) \<and> j < length (ranked_results ?res) \<and>
             snd (ranked_results ?res ! j) < snd (ranked_results ?res ! i) \<longrightarrow> i < j"
    by blast
  then have "(0::nat) < length (ranked_results ?res) \<and> 1 < length (ranked_results ?res) \<and>
             snd (ranked_results ?res ! 1) < snd (ranked_results ?res ! 0) \<longrightarrow> (0::nat) < 1"
    by blast
  with r show ?thesis by simp
qed

text \<open>
  C4. When the scoring returns, the score of a docid is the sum, over every entry of the
  term list (one entry per occurrence of an indexed query token, duplicates included) and
  every posting of that entry for the docid, of
  \<open>idf * (k1 + 1) * tf / (k1 * ((1 - b) + b * dl / davg) + tf)\<close> with \<open>idf = log2 (N / df)\<close>; docids
  in no postings list have no score, and an entry with no postings has \<open>idf = 0\<close> and adds
  nothing. Floats are read as reals.
\<close>

theorem bm25_scores_are_additive:
  "(search_scored self tps = Inr acc \<longrightarrow>
      distinct (map fst acc) \<and>
      (\<forall>d. map_of acc d =
         (if \<exists>tp\<in>set tps. d \<in> docid ` set (tp_postings tp)
          then Some (\<Sum>tp\<leftarrow>tps. \<Sum>p\<leftarrow>filter (\<lambda>p. docid p = d) (tp_postings tp).
                  score_term (log 2 (real_of_int (get_doc_count (bm_index self))
                                       / real (length (tp_postings tp))))
                    (bm_k1 self) (bm_b self) (real (length (positions p)))
                    (real_of_int (get_doclength (bm_index self) (docid p)))
                    (avg_doclength (bm_index self)))
          else None))) \<and>
   (fst (evaluate_bm25 self h) = Inr res \<longrightarrow>
      (\<forall>d. map_of (ranked_results res) d =
         (if \<exists>a\<in>set (List.map_filter (get_postings (bm_index self)) (bm_query self)).
               d \<in> docid ` set (tp_postings (h a))
          then Some (\<Sum>a\<leftarrow>List.map_filter (get_postings (bm_index self)) (bm_query self).
                     \<Sum>p\<leftarrow>filter (\<lambda>p. docid p = d) (tp_postings (h a)).
                  score_term (log 2 (real_of_int (get_doc_count (bm_index self))
                                       / real (length (tp_postings (h a)))))
                    (bm_k1 self) (bm_b self) (real (length (positions p)))
                    (real_of_int (get_doclength (bm_index self) (docid p)))
                    (avg_doclength (bm_index self)))
          else None))) \<and>
   (compute_bm25_term self idf tf dl = Inr s \<longrightarrow>
      s = idf * (bm_k1 self + 1) * real tf
            / (bm_k1 self * ((1 - bm_b self) + bm_b self * real_of_int dl / avg_doclength (bm_index self))
               + real tf)) \<and>
   idf_of (get_doc_count (bm_index self)) [] = Inr 0"
proof (intro conjI impI allI)
  assume s: "search_scored self tps = Inr acc"
  show "distinct (map fst acc)" by (rule search_scored_sum(2)[OF s])
  fix d
  show "map_of acc d =
         (if \<exists>tp\<in>set tps. d \<in> docid ` set (tp_postings tp)
          then Some (\<Sum>tp\<leftarrow>tps. \<Sum>p\<leftarrow>filter (\<lambda>p. docid p = d) (tp_postings tp).
                  score_term (log 2 (real_of_int (get_doc_count (bm_index self))
                                       / real (length (tp_postings tp))))
                    (bm_k1 self) (bm_b self) (real (length (positions p)))
                    (real_of_int (get_doclength (bm_index self) (docid p)))
                    (avg_doclength (bm_index self)))
          else None)"
    by (rule search_scored_sum(1)[OF s])
next
  fix d
  assume "fst (evaluate_bm25 self h) = Inr res"
  then show "map_of (ranked_results res) d =
         (if \<exists>a\<in>set (List.map_filter (get_postings (bm_index self)) (bm_query self)).
               d \<in> docid ` set (tp_postings (h a))
          then Some (\<Sum>a\<leftarrow>List.map_filter (get_postings (bm_index self)) (bm_query self).
                     \<Sum>p\<leftarrow>filter (\<lambda>p. docid p = d) (tp_postings (h a)).
                  score_term (log 2 (real_of_int (get_doc_count (bm_index self))
                                       / real (length (tp_postings (h a)))))
                    (bm_k1 self) (bm_b self) (real (length (positions p)))
                    (real_of_int (get_doclength (bm_index self) (docid p)))
                    (avg_doclength (bm_index self)))
          else None)"
    by (rule evaluate_bm25_scores)
next
  assume "compute_bm25_term self idf tf dl = Inr s"
  from compute_bm25_term_formula[OF this]
  show "s = idf * (bm_k1 self + 1) * real tf
            / (bm_k1 self * ((1 - bm_b self) + bm_b self * real_of_int dl / avg_doclength (bm_index self))
               + real tf)"
    by (simp add: score_term_def)
next
  show "idf_of (get_doc_count (bm_index self)) [] = Inr 0"
    by (simp add: idf_of_def)
qed

theorem bm25_scores_are_additive_witness:
  "search_scored (oil_search [''Oil'', ''gas'', ''coal''])
     [\<lparr>tp_term = ''Oil'', tp_postings = [\<lparr>docid = 2, positions = [0]\<rparr>]\<rparr>,
      \<lparr>tp_term = ''gas'',
        tp_postings = [\<lparr>docid = 1, positions = [0]\<rparr>, \<lparr>docid = 2, positions = [3]\<rparr>]\<rparr>] =
     Inr [(2, 1), (1, 0)] \<and>
   fst (evaluate_bm25 (oil_search [''Oil'', ''gas'', ''coal'']) oil_store) =
     Inr \<lparr>added_postings =
             [(''Oil'', [\<lparr>docid = 2, positions = [0]\<rparr>]),
              (''gas'', [\<lparr>docid = 1, positions = [0]\<rparr>, \<lparr>docid = 2, positions = [3]\<rparr>])],
           ranked_results = [(2, 1), (1, 0)]\<rparr> \<and>
   compute_bm25_term (oil_search [''Oil'', ''gas'', ''coal'']) 1 1 1 = Inr 1 \<and>
   distinct (map fst [(2::int, 1::real), (1, 0)]) \<and>
   map_of [(2::int, 1::real), (1, 0)] 2 =
     Some (score_term (log 2 (2 / 1)) 1 (1 / 2) 1 1 1 + score_term (log 2 (2 / 2)) 1 (1 / 2) 1 1 1) \<and>
   map_of [(2::int, 1::real), (1, 0)] 3 = None"
proof -
  let ?S = "oil_search [''Oil'', ''gas'', ''coal'']"
  let ?TPS = "[\<lparr>tp_term = ''Oil'', tp_postings = [\<lparr>docid = 2, positions = [0]\<rparr>]\<rparr>,
      \<lparr>tp_term = ''gas'',
        tp_postings = [\<lparr>docid = 1, positions = [0]\<rparr>, \<lparr>docid = 2, positions = [3]\<rparr>]\<rparr>]"
  let ?RES = "\<lparr>added_postings =
             [(''Oil'', [\<lparr>docid = 2, positions = [0]\<rparr>]),
              (''gas'', [\<lparr>docid = 1, positions = [0]\<rparr>, \<lparr>docid = 2, positions = [3]\<rparr>])],
           ranked_results = [(2::int, 1::real), (1, 0)]\<rparr>"
  have s: "search_scored ?S ?TPS = Inr [(2, 1), (1, 0)]"
    by (simp add: oil_search_def oil_index_def search_scored_def idf_of_def compute_bm25_term_def
        acc_bump_def Let_def)
  have e: "fst (evaluate_bm25 ?S oil_store) = Inr ?RES"
    by (simp add: oil_run)
  have c: "compute_bm25_term ?S 1 1 1 = Inr 1"
    by (simp add: oil_search_def oil_index_def compute_bm25_term_def Let_def)
  note inst = bm25_scores_are_additive[where self = ?S and tps = ?TPS and acc = "[(2, 1), (1, 0)]"
      and h = oil_store and res = ?RES and idf = 1 and tf = 1 and dl = 1 and s = 1]
  from inst s have d: "distinct (map fst [(2::int, 1::real), (1, 0)])"
    by blast
  from inst s have m: "\<forall>d. map_of [(2::int, 1::real), (1, 0)] d =
         (if \<exists>tp\<in>set ?TPS. d \<in> docid ` set (tp_postings tp)
          then Some (\<Sum>tp\<leftarrow>?TPS. \<Sum>p\<leftarrow>filter (\<lambda>p. docid p = d) (tp_postings tp).
                  score_term (log 2 (real_of_int (get_doc_count (bm_index ?S))
                                       / real (length (tp_postings tp))))
                    (bm_k1 ?S) (bm_b ?S) (real (length (positions p)))
                    (real_of_int (get_doclength (bm_index ?S) (docid p)))
                    (avg_doclength (bm_index ?S)))
          else None)"
    by blast
  have m2: "map_of [(2::int, 1::real), (1, 0)] 2 =
     Some (score_term (log 2 (2 / 1)) 1 (1 / 2) 1 1 1 + score_term (log 2 (2 / 2)) 1 (1 / 2) 1 1 1)"
    unfolding m[rule_format, of 2] by (simp add: oil_search_def oil_index_def)
  have m3: "map_of [(2::int, 1::real), (1, 0)] 3 = None"
    unfolding m[rule_format, of 3] by simp
  from s e c d m2 m3 show ?thesis by blast
qed

text \<open>
  C9 (as the code has it). The boolean evaluator leaves its index as it was. The ranked
  evaluation leaves every postings list as it was and leaves alone every object the
  index does not return for a query token, but each object it does return ends with its
  \<open>term\<close> attribute overwritten by a query token that maps to it.
\<close>

theorem evaluation_only_overwrites_term:
  "(evaluate ev = Some (Inr ev') \<longrightarrow> ev_index ev' = ev_index ev) \<and>
   (evaluate_bm25 self h = (out, h') \<longrightarrow>
      (\<forall>a. tp_postings (h' a) = tp_postings (h a)) \<and>
      (\<forall>a. (\<forall>t\<in>set (bm_query self). get_postings (bm_index self) t \<noteq> Some a) \<longrightarrow> h' a = h a) \<and>
      (\<forall>a. (\<exists>t\<in>set (bm_query self). get_postings (bm_index self) t = Some a) \<longrightarrow>
           (\<exists>t\<in>set (bm_query self). get_postings (bm_index self) t = Some a \<and> tp_term (h' a) = t)))"
proof (intro conjI impI)
  assume "evaluate ev = Some (Inr ev')"
  then show "ev_index ev' = ev_index ev"
    by (auto simp: evaluate_def split: option.splits sum.splits)
next
  assume e: "evaluate_bm25 self h = (out, h')"
  then obtain refs where c: "collect_postings (bm_index self) (bm_query self) [] h = (refs, h')"
    by (auto simp: evaluate_bm25_def Let_def split: prod.splits sum.splits)
  from collect_postings_frame[OF c]
  show "\<forall>a. tp_postings (h' a) = tp_postings (h a)"
    and "\<forall>a. (\<forall>t\<in>set (bm_query self). get_postings (bm_index self) t \<noteq> Some a) \<longrightarrow> h' a = h a"
    by blast+
  from collect_postings_term[OF c]
  show "\<forall>a. (\<exists>t\<in>set (bm_query self). get_postings (bm_index self) t = Some a) \<longrightarrow>
           (\<exists>t\<in>set (bm_query self). get_postings (bm_index self) t = Some a \<and> tp_term (h' a) = t)"
    by blast
qed

theorem evaluation_only_overwrites_term_witness:
  "(\<exists>ev'. evaluate \<lparr>ev_parser = \<lparr>current_token = Token ''y'' TERM_T,
                                     tokens_stream = [Token ''##EOF##'' EOF]\<rparr>,
                       ev_index = index_of [(''y'', [5, 6])],
                       eval_result = EvaluationResult_init\<rparr> = Some (Inr ev') \<and>
          ev_index ev' = index_of [(''y'', [5, 6])]) \<and>
   evaluate_bm25 (oil_search [''Oil'', ''gas'', ''coal'']) oil_store =
     (Inr \<lparr>added_postings =
             [(''Oil'', [\<lparr>docid = 2, positions = [0]\<rparr>]),
              (''gas'', [\<lparr>docid = 1, positions = [0]\<rparr>, \<lparr>docid = 2, positions = [3]\<rparr>])],
           ranked_results = [(2, 1), (1, 0)]\<rparr>,
      oil_store(0 := \<lparr>tp_term = ''Oil'', tp_postings = [\<lparr>docid = 2, positions = [0]\<rparr>]\<rparr>)) \<and>
   get_postings (bm_index (oil_search [''Oil'', ''gas'', ''coal''])) ''Oil'' = Some 0 \<and>
   get_postings (bm_index (oil_search [''Oil'', ''gas'', ''coal''])) ''Oil'' \<noteq> Some 7 \<and>
   get_postings (bm_index (oil_search [''Oil'', ''gas'', ''coal''])) ''gas'' \<noteq> Some 7 \<and>
   get_postings (bm_index (oil_search [''Oil'', ''gas'', ''coal''])) ''coal'' \<noteq> Some 7 \<and>
   tp_postings ((oil_store(0 := \<lparr>tp_term = ''Oil'', tp_postings = [\<lparr>docid = 2, positions = [0]\<rparr>]\<rparr>)) 0)
     = tp_postings (oil_store 0) \<and>
   (oil_store(0 := \<lparr>tp_term = ''Oil'', tp_postings = [\<lparr>docid = 2, positions = [0]\<rparr>]\<rparr>)) 7 = oil_store 7 \<and>
   tp_term ((oil_store(0 := \<lparr>tp_term = ''Oil'', tp_postings = [\<lparr>docid = 2, positions = [0]\<rparr>]\<rparr>)) 0)
     \<in> {t \<in> set (bm_query (oil_search [''Oil'', ''gas'', ''coal''])).
          get_postings (bm_index (oil_search [''Oil'', ''gas'', ''coal''])) t = Some 0}"
proof -
  let ?EV = "\<lparr>ev_parser = \<lparr>current_token = Token ''y'' TERM_T, tokens_stream = [Token ''##EOF##'' EOF]\<rparr>,
              ev_index = index_of [(''y'', [5, 6])], eval_result = EvaluationResult_init\<rparr>"
  let ?S = "oil_search [''Oil'', ''gas'', ''coal'']"
  let ?RES = "\<lparr>added_postings =
             [(''Oil'', [\<lparr>docid = 2, positions = [0]\<rparr>]),
              (''gas'', [\<lparr>docid = 1, positions = [0]\<rparr>, \<lparr>docid = 2, positions = [3]\<rparr>])],
           ranked_results = [(2::int, 1::real), (1, 0)]\<rparr>"
  let ?H = "oil_store(0 := \<lparr>tp_term = ''Oil'', tp_postings = [\<lparr>docid = 2, positions = [0]\<rparr>]\<rparr>)"
  have "\<exists>ev'. evaluate ?EV = Some (Inr ev')"
    by (simp add: evaluate_def parse_def ingest_def visit_term_def index_of_def Let_def
        eval_nat_numeral)
  then obtain ev' where ev: "evaluate ?EV = Some (Inr ev')" ..
  have run: "evaluate_bm25 ?S oil_store = (Inr ?RES, ?H)"
    by (rule oil_run)
  have g: "get_postings (bm_index ?S) ''Oil'' = Some 0"
    "\<forall>t\<in>set (bm_query ?S). get_postings (bm_index ?S) t \<noteq> Some 7"
    "\<exists>t\<in>set (bm_query ?S). get_postings (bm_index ?S) t = Some 0"
    by (simp_all add: oil_search_def oil_index_def)
  note inst = evaluation_only_overwrites_term[where ev = ?EV and ev' = ev' and self = ?S
      and h = oil_store and out = "Inr ?RES" and h' = ?H]
  from inst ev have a: "ev_index ev' = index_of [(''y'', [5, 6])]"
    by simp
  from inst run have b1: "\<forall>a. tp_postings (?H a) = tp_postings (oil_store a)"
    and b2: "\<forall>a. (\<forall>t\<in>set (bm_query ?S). get_postings (bm_index ?S) t \<noteq> Some a) \<longrightarrow> ?H a = oil_store a"
    and b3: "\<forall>a. (\<exists>t\<in>set (bm_query ?S). get_postings (bm_index ?S) t = Some a) \<longrightarrow>
           (\<exists>t\<in>set (bm_query ?S). get_postings (bm_index ?S) t = Some a \<and> tp_term (?H a) = t)"
    by blast+
  from b1 have c1: "tp_postings (?H 0) = tp_postings (oil_store 0)" by blast
  from b2 g(2) have c2: "?H 7 = oil_store 7" by blast
  from b3 g(3) have c3: "\<exists>t\<in>set (bm_query ?S). get_postings (bm_index ?S) t = Some 0 \<and> tp_term (?H 0) = t"
    by blast
  have g7: "get_postings (bm_index ?S) ''Oil'' \<noteq> Some 7"
    "get_postings (bm_index ?S) ''gas'' \<noteq> Some 7" "get_postings (bm_index ?S) ''coal'' \<noteq> Some 7"
    by (simp_all add: oil_search_def oil_index_def)
  from c3 have c4: "tp_term (?H 0) \<in> {t \<in> set (bm_query ?S). get_postings (bm_index ?S) t = Some 0}"
    by blast
  from ev a run g(1) g7 c1 c2 c4 show ?thesis by blast
qed

text \<open>
  C9 as stated fails: the object the index returns for \<open>Oil\<close> had the term \<open>oil\<close> before
  the ranked evaluation and has the term \<open>Oil\<close> after it.
\<close>

theorem bm25_overwrites_term_counterexample:
  "tp_term (oil_store 0) = ''oil'' \<and>
   tp_term (snd (evaluate_bm25 (oil_search [''Oil'', ''gas'', ''coal'']) oil_store) 0) = ''Oil''"
  by (simp add: oil_run) (simp add: oil_store_def)

end
